theory Spec2Isabelle
  imports Complex_Main "HOL-Library.Sublist"
begin

section \<open>Python string primitives used by zktransaction.py\<close>

text \<open>
  Python 2 \<open>str\<close> values are byte strings, modelled as \<open>string\<close> (a list of 8-bit
  characters). The functions below are the library calls the source makes on them:
  \<open>str\<close>, the \<open>%010d\<close> format, \<open>long\<close>, \<open>float\<close>, \<open>split\<close>, \<open>join\<close>, \<open>lstrip\<close>,
  \<open>re.match\<close> with the two patterns of the source, and \<open>urllib.quote_plus\<close> /
  \<open>urllib.unquote_plus\<close>.
\<close>

definition is_digit :: "char \<Rightarrow> bool" where
  "is_digit c = (c \<in> set ''0123456789'')"

definition digit_char :: "nat \<Rightarrow> char" where
  "digit_char d = ''0123456789'' ! d"

definition digit_val :: "char \<Rightarrow> nat" where
  "digit_val c = (of_char c :: nat) - 48"

fun str_nat :: "nat \<Rightarrow> string" where
  "str_nat n = (if n < 10 then [digit_char n] else str_nat (n div 10) @ [digit_char (n mod 10)])"

declare str_nat.simps [simp del]

text \<open>\<open>str(i)\<close> for a Python integer.\<close>

definition str_int :: "int \<Rightarrow> string" where
  "str_int i = (if i < 0 then CHR ''-'' # str_nat (nat (- i)) else str_nat (nat i))"

definition zfill :: "nat \<Rightarrow> string \<Rightarrow> string" where
  "zfill w s = replicate (w - length s) (CHR ''0'') @ s"

text \<open>\<open>"%010d" % i\<close>: width ten, zero padded, the sign counted in the width.\<close>

definition fmt_010d :: "int \<Rightarrow> string" where
  "fmt_010d i = (if i < 0 then CHR ''-'' # zfill 9 (str_nat (nat (- i))) else zfill 10 (str_nat (nat i)))"

definition nat_of_digits :: "string \<Rightarrow> nat" where
  "nat_of_digits s = foldl (\<lambda>a c. 10 * a + digit_val c) 0 s"

definition all_digits :: "string \<Rightarrow> bool" where
  "all_digits s = (s \<noteq> [] \<and> list_all is_digit s)"

definition is_space :: "char \<Rightarrow> bool" where
  "is_space c = (c \<in> set [CHR '' '', CHR 0x09, CHR 0x0A, CHR 0x0B, CHR 0x0C, CHR 0x0D])"

definition strip_ws :: "string \<Rightarrow> string" where
  "strip_ws s = rev (dropWhile is_space (rev (dropWhile is_space s)))"

definition split_sign :: "string \<Rightarrow> bool \<times> string" where
  "split_sign s =
     (case s of
        [] \<Rightarrow> (False, s)
      | c # r \<Rightarrow> if c = CHR ''-'' then (True, r) else if c = CHR ''+'' then (False, r) else (False, s))"

text \<open>
  \<open>long(s)\<close>: surrounding white space, an optional sign, decimal digits and an optional
  trailing \<open>L\<close>; \<open>None\<close> stands for the \<open>ValueError\<close> Python raises on anything else.
\<close>

definition py_long :: "string \<Rightarrow> int option" where
  "py_long s0 =
     (let (neg, s1) = split_sign (strip_ws s0);
          s2 = (if s1 \<noteq> [] \<and> (last s1 = CHR ''L'' \<or> last s1 = CHR ''l'') then butlast s1 else s1)
      in if all_digits s2
         then Some (if neg then - int (nat_of_digits s2) else int (nat_of_digits s2))
         else None)"

text \<open>
  \<open>float(s)\<close> on the decimal forms without exponent (\<open>12\<close>, \<open>12.5\<close>, \<open>.5\<close>, \<open>12.\<close>), read as
  a rational number; \<open>None\<close> stands for \<open>ValueError\<close>. The exponent, \<open>inf\<close> and \<open>nan\<close>
  forms and the rounding of binary floating point are outside this model.
\<close>

definition py_float :: "string \<Rightarrow> rat option" where
  "py_float s0 =
     (let (neg, s1) = split_sign (strip_ws s0);
          ip = takeWhile is_digit s1;
          r = dropWhile is_digit s1;
          fp = (case r of [] \<Rightarrow> Some [] | c # f \<Rightarrow> if c = CHR ''.'' then Some f else None)
      in case fp of
           None \<Rightarrow> None
         | Some f \<Rightarrow>
             if list_all is_digit f \<and> (ip \<noteq> [] \<or> f \<noteq> [])
             then Some ((if neg then - 1 else 1) *
                        (of_nat (nat_of_digits ip) + of_nat (nat_of_digits f) / 10 ^ length f))
             else None)"

text \<open>
  \<open>str(time.time())\<close>: the wall clock is read in whole seconds in this model, and Python
  prints such a float as the integer followed by \<open>.0\<close>.
\<close>

definition str_time :: "nat \<Rightarrow> string" where
  "str_time t = str_nat t @ ''.0''"

text \<open>\<open>s.split(sep)\<close> for a non-empty separator: non-overlapping matches, left to right.\<close>

function split_acc :: "string \<Rightarrow> string \<Rightarrow> string \<Rightarrow> string list" where
  "split_acc sep acc [] = [acc]"
| "split_acc sep acc (c # cs) =
     (if sep \<noteq> [] \<and> prefix sep (c # cs)
      then acc # split_acc sep [] (drop (length sep) (c # cs))
      else split_acc sep (acc @ [c]) cs)"
  by pat_completeness auto
termination
  by (relation "measure (\<lambda>(sep, acc, s). length s)") (auto simp: neq_Nil_conv)

definition py_split :: "string \<Rightarrow> string \<Rightarrow> string list" where
  "py_split s sep = split_acc sep [] s"

fun py_join :: "string \<Rightarrow> string list \<Rightarrow> string" where
  "py_join sep [] = []"
| "py_join sep [x] = x"
| "py_join sep (x # y # ys) = x @ sep @ py_join sep (y # ys)"

definition py_lstrip :: "string \<Rightarrow> string \<Rightarrow> string" where
  "py_lstrip chars s = dropWhile (\<lambda>c. c \<in> set chars) s"

definition always_safe :: "char \<Rightarrow> bool" where
  "always_safe c =
     (c \<in> set ''ABCDEFGHIJKLMNOPQRSTUVWXYZabcdefghijklmnopqrstuvwxyz0123456789_.-'')"

definition hex_digit :: "nat \<Rightarrow> char" where
  "hex_digit d = ''0123456789ABCDEF'' ! d"

definition quote_char :: "char \<Rightarrow> string" where
  "quote_char c =
     (if always_safe c then [c]
      else if c = CHR '' '' then ''+''
      else [CHR ''%'', hex_digit ((of_char c :: nat) div 16), hex_digit ((of_char c :: nat) mod 16)])"

definition quote_plus :: "string \<Rightarrow> string" where
  "quote_plus s = concat (map quote_char s)"

definition is_hex :: "char \<Rightarrow> bool" where
  "is_hex c = (c \<in> set ''0123456789ABCDEFabcdef'')"

definition hex_val :: "char \<Rightarrow> nat" where
  "hex_val c =
     (if is_digit c then digit_val c
      else if c \<in> set ''ABCDEF'' then (of_char c :: nat) - 55
      else (of_char c :: nat) - 87)"

fun unquote :: "string \<Rightarrow> string" where
  "unquote (c # a # b # r) =
     (if c = CHR ''%'' \<and> is_hex a \<and> is_hex b
      then char_of (16 * hex_val a + hex_val b) # unquote r
      else c # unquote (a # b # r))"
| "unquote s = s"

definition unquote_plus :: "string \<Rightarrow> string" where
  "unquote_plus s = unquote (map (\<lambda>c. if c = CHR ''+'' then CHR '' '' else c) s)"


section \<open>The coordination service\<close>

text \<open>
  The source talks to ZooKeeper through a \<open>kazoo\<close> client handle. Neither is part of the
  repository; what follows is the name space they provide, as the source relies on it:
  a tree of nodes named by \<open>/\<close>-separated paths, each holding a string; create, get, set,
  delete, exists and get_children; sequence nodes numbered from a per-parent counter of
  child creations; ephemeral nodes that vanish with the session; and the asynchronous
  variants, which never raise at the call site (their outcome is dropped by the source).
  One client is modelled; requests take effect in the order they are issued.
\<close>

datatype txn_error =
    NoMoreRetries | CallTimedOut | UnableToCreateNode | UnableToCreateSequenceNode
  | TransactionTimedOut | TransactionNotValid | AlreadyHeld | TooManyGroups
  | DifferentRootEntity | ZooKeeperException | UnableToReleaseLock

datatype exc =
    NoNodeError | NodeExistsError | NotEmptyError
  | ConnectionLoss | ConnectionClosedError | OperationTimeoutError | SessionExpiredError
  | DataInconsistency | BadArgumentsError | SystemZookeeperError | ZookeeperError
  | ZKTimeoutException | ZKTransactionException txn_error
  | TypeError | ValueError | IndexError

text \<open>The classes of \<open>kazoo.exceptions\<close> that derive from \<open>ZookeeperError\<close>.\<close>

definition is_ZookeeperError :: "exc \<Rightarrow> bool" where
  "is_ZookeeperError e =
     (e \<in> set [NoNodeError, NodeExistsError, NotEmptyError, ConnectionLoss,
                ConnectionClosedError, OperationTimeoutError, SessionExpiredError,
                DataInconsistency, BadArgumentsError, SystemZookeeperError, ZookeeperError])"

datatype arg = AStr string | ABool bool | ANone

datatype val = VNone | VStat | VStr string | VList "string list" | VData string | VAsync

datatype meth =
    MCreate | MGet | MSet | MDelete | MExists | MGetChildren
  | MCreateAsync | MSetAsync | MDeleteAsync

datatype logmsg = NotifyFailedTransaction string int | CreatedSequenceIdZero

text \<open>
  The state threaded through every call: the name space (\<open>nodes\<close>, in creation order), the
  per-parent creation counters, the ephemeral nodes of the current session, the faults the
  service will answer the next synchronous requests with (\<open>None\<close>: no fault), the readings
  the wall clock will give, the number of sessions re-established, the requests issued so
  far and the log lines the claims refer to.
\<close>

record zk =
  nodes :: "(string \<times> string) list"
  cversions :: "(string \<times> nat) list"
  ephemerals :: "string list"
  faults :: "exc option list"
  clock :: "nat list"
  reconnects :: nat
  trace :: "(meth \<times> string) list"
  logged :: "logmsg list"

type_synonym 'a action = "zk \<Rightarrow> (exc + 'a) \<times> zk"

definition ret :: "'a \<Rightarrow> 'a action" where
  "ret v z = (Inr v, z)"

definition raise :: "exc \<Rightarrow> 'a action" where
  "raise e z = (Inl e, z)"

definition andthen :: "'a action \<Rightarrow> ('a \<Rightarrow> 'b action) \<Rightarrow> 'b action" where
  "andthen m f z = (case m z of (Inl e, z1) \<Rightarrow> (Inl e, z1) | (Inr v, z1) \<Rightarrow> f v z1)"

text \<open>\<open>try: m except ...\<close>: the handler decides by the exception and re-raises the rest.\<close>

definition try_except :: "'a action \<Rightarrow> (exc \<Rightarrow> 'a action) \<Rightarrow> 'a action" where
  "try_except m h z = (case m z of (Inl e, z1) \<Rightarrow> h e z1 | (Inr v, z1) \<Rightarrow> (Inr v, z1))"

definition lookup :: "zk \<Rightarrow> string \<Rightarrow> string option" where
  "lookup z p = map_of (nodes z) p"

text \<open>The root (the empty path here) always exists.\<close>

definition node_exists :: "zk \<Rightarrow> string \<Rightarrow> bool" where
  "node_exists z p = (p = [] \<or> lookup z p \<noteq> None)"

definition is_child :: "string \<Rightarrow> string \<Rightarrow> bool" where
  "is_child p q = (prefix (p @ ''/'') q \<and> CHR ''/'' \<notin> set (drop (Suc (length p)) q))"

definition children_of :: "zk \<Rightarrow> string \<Rightarrow> string list" where
  "children_of z p = map (drop (Suc (length p))) (filter (is_child p) (map fst (nodes z)))"

definition parent_of :: "string \<Rightarrow> string" where
  "parent_of p = rev (drop 1 (dropWhile (\<lambda>c. c \<noteq> CHR ''/'') (rev p)))"

text \<open>The proper ancestors of a path, nearest to the root first: its prefixes that end
  just before a separator.\<close>

definition ancestors :: "string \<Rightarrow> string list" where
  "ancestors p = map (\<lambda>i. take i p) (filter (\<lambda>i. p ! i = CHR ''/'') [1..<length p])"

definition seq_of :: "zk \<Rightarrow> string \<Rightarrow> nat" where
  "seq_of z p = (case map_of (cversions z) p of None \<Rightarrow> 0 | Some n \<Rightarrow> n)"

definition add_node :: "string \<Rightarrow> string \<Rightarrow> bool \<Rightarrow> zk \<Rightarrow> zk" where
  "add_node p v eph z =
     z\<lparr>nodes := nodes z @ [(p, v)],
       cversions := (parent_of p, Suc (seq_of z (parent_of p))) # cversions z,
       ephemerals := (if eph then p # ephemerals z else ephemerals z)\<rparr>"

definition del_node :: "string \<Rightarrow> zk \<Rightarrow> zk" where
  "del_node p z =
     z\<lparr>nodes := filter (\<lambda>(q, _). q \<noteq> p) (nodes z),
       cversions := filter (\<lambda>(q, _). q \<noteq> p) (cversions z),
       ephemerals := removeAll p (ephemerals z)\<rparr>"

text \<open>\<open>makepath\<close>: every missing ancestor is created with an empty value.\<close>

definition ensure_path :: "string \<Rightarrow> zk \<Rightarrow> zk" where
  "ensure_path p z =
     fold (\<lambda>a z1. if node_exists z1 a then z1 else add_node a [] False z1) (ancestors p @ [p]) z"

definition zk_create :: "string \<Rightarrow> string \<Rightarrow> bool \<Rightarrow> bool \<Rightarrow> bool \<Rightarrow> val action" where
  "zk_create p v eph sq mk z =
     (if \<not> node_exists z (parent_of p) \<and> \<not> mk then (Inl NoNodeError, z)
      else
        let z1 = ensure_path (parent_of p) z;
            p1 = (if sq then p @ fmt_010d (int (seq_of z1 (parent_of p))) else p)
        in if node_exists z1 p1 then (Inl NodeExistsError, z1)
           else (Inr (VStr p1), add_node p1 v eph z1))"

definition zk_get :: "string \<Rightarrow> val action" where
  "zk_get p z = (case lookup z p of None \<Rightarrow> (Inl NoNodeError, z) | Some v \<Rightarrow> (Inr (VData v), z))"

definition zk_set :: "string \<Rightarrow> string \<Rightarrow> val action" where
  "zk_set p v z =
     (if lookup z p = None then (Inl NoNodeError, z)
      else (Inr VStat, z\<lparr>nodes := map (\<lambda>(q, w). if q = p then (q, v) else (q, w)) (nodes z)\<rparr>))"

definition zk_delete :: "string \<Rightarrow> val action" where
  "zk_delete p z =
     (if lookup z p = None then (Inl NoNodeError, z)
      else if children_of z p \<noteq> [] then (Inl NotEmptyError, z)
      else (Inr VNone, del_node p z))"

definition zk_exists :: "string \<Rightarrow> val action" where
  "zk_exists p z = (Inr (if node_exists z p then VStat else VNone), z)"

definition zk_get_children :: "string \<Rightarrow> val action" where
  "zk_get_children p z =
     (if node_exists z p then (Inr (VList (children_of z p)), z) else (Inl NoNodeError, z))"

text \<open>
  A synchronous request is recorded, then answered with the next scheduled fault if there
  is one, and served otherwise. An asynchronous request is recorded and served; its result,
  error or not, is dropped.
\<close>

definition sync_call :: "meth \<Rightarrow> string \<Rightarrow> val action \<Rightarrow> val action" where
  "sync_call m p op z =
     (let z1 = z\<lparr>trace := trace z @ [(m, p)]\<rparr>
      in case faults z1 of
           [] \<Rightarrow> op z1
         | None # fs \<Rightarrow> op (z1\<lparr>faults := fs\<rparr>)
         | Some e # fs \<Rightarrow> (Inl e, z1\<lparr>faults := fs\<rparr>))"

definition async_call :: "meth \<Rightarrow> string \<Rightarrow> val action \<Rightarrow> val action" where
  "async_call m p op z = (Inr VAsync, snd (op (z\<lparr>trace := trace z @ [(m, p)]\<rparr>)))"

text \<open>
  The methods of \<open>self.handle\<close>, applied to a Python argument list as \<open>function(*args)\<close>
  applies them; a list of the wrong shape is the \<open>TypeError\<close> of the call.
\<close>

definition handle_create :: "arg list \<Rightarrow> val action" where
  "handle_create args z =
     (case args of
        [AStr p, AStr v, ANone, ABool eph, ABool sq, ABool mk] \<Rightarrow>
          sync_call MCreate p (zk_create p v eph sq mk) z
      | _ \<Rightarrow> (Inl TypeError, z))"

definition handle_create_async :: "arg list \<Rightarrow> val action" where
  "handle_create_async args z =
     (case args of
        [AStr p, AStr v, ANone] \<Rightarrow> async_call MCreateAsync p (zk_create p v False False False) z
      | [AStr p, AStr v, ANone, ABool eph, ABool sq] \<Rightarrow>
          async_call MCreateAsync p (zk_create p v eph sq False) z
      | _ \<Rightarrow> (Inl TypeError, z))"

definition handle_get :: "arg list \<Rightarrow> val action" where
  "handle_get args z =
     (case args of [AStr p] \<Rightarrow> sync_call MGet p (zk_get p) z | _ \<Rightarrow> (Inl TypeError, z))"

definition handle_set_async :: "arg list \<Rightarrow> val action" where
  "handle_set_async args z =
     (case args of
        [AStr p, AStr v] \<Rightarrow> async_call MSetAsync p (zk_set p v) z
      | _ \<Rightarrow> (Inl TypeError, z))"

definition handle_delete :: "arg list \<Rightarrow> val action" where
  "handle_delete args z =
     (case args of [AStr p] \<Rightarrow> sync_call MDelete p (zk_delete p) z | _ \<Rightarrow> (Inl TypeError, z))"

definition handle_delete_async :: "arg list \<Rightarrow> val action" where
  "handle_delete_async args z =
     (case args of
        [AStr p] \<Rightarrow> async_call MDeleteAsync p (zk_delete p) z
      | _ \<Rightarrow> (Inl TypeError, z))"

definition handle_exists :: "arg list \<Rightarrow> val action" where
  "handle_exists args z =
     (case args of [AStr p] \<Rightarrow> sync_call MExists p (zk_exists p) z | _ \<Rightarrow> (Inl TypeError, z))"

definition handle_get_children :: "arg list \<Rightarrow> val action" where
  "handle_get_children args z =
     (case args of
        [AStr p] \<Rightarrow> sync_call MGetChildren p (zk_get_children p) z
      | _ \<Rightarrow> (Inl TypeError, z))"

text \<open>\<open>time.time()\<close>: the next reading of the clock; the last reading repeats.\<close>

definition time_time :: "zk \<Rightarrow> nat \<times> zk" where
  "time_time z =
     (case clock z of
        [] \<Rightarrow> (0, z)
      | [t] \<Rightarrow> (t, z)
      | t # ts \<Rightarrow> (t, z\<lparr>clock := ts\<rparr>))"

text \<open>What the source reads off a result: \<open>r[0]\<close> of a get, the list of a get_children,
  the string of a create, and truth of an exists.\<close>

definition item0 :: "val \<Rightarrow> string action" where
  "item0 r = (case r of VData v \<Rightarrow> ret v | _ \<Rightarrow> raise TypeError)"

definition as_list :: "val \<Rightarrow> string list action" where
  "as_list r = (case r of VList xs \<Rightarrow> ret xs | _ \<Rightarrow> raise TypeError)"

definition truthy :: "val \<Rightarrow> bool" where
  "truthy r = (case r of VNone \<Rightarrow> False | VStr s \<Rightarrow> s \<noteq> [] | VList xs \<Rightarrow> xs \<noteq> [] | _ \<Rightarrow> True)"

text \<open>\<open>str(v)\<close> of what create returned.\<close>

definition str_val :: "val \<Rightarrow> string" where
  "str_val r = (case r of VStr s \<Rightarrow> s | VNone \<Rightarrow> ''None'' | _ \<Rightarrow> [])"

section \<open>zktransaction.py\<close>

definition TX_TIMEOUT :: nat where "TX_TIMEOUT = 30"
definition DEFAULT_VAL :: string where "DEFAULT_VAL = ''default''"
definition PATH_SEPARATOR :: string where "PATH_SEPARATOR = ''/''"
definition APPS_PATH :: string where "APPS_PATH = ''/appscale/apps''"
definition APP_TX_PATH :: string where "APP_TX_PATH = ''txids''"
definition APP_LOCK_PATH :: string where "APP_LOCK_PATH = ''locks''"
definition APP_TX_PREFIX :: string where "APP_TX_PREFIX = ''tx''"
definition TX_UPDATEDKEY_PREFIX :: string where "TX_UPDATEDKEY_PREFIX = ''ukey''"
definition TX_LOCK_PATH :: string where "TX_LOCK_PATH = ''lockpath''"
definition TX_BLACKLIST_PATH :: string where "TX_BLACKLIST_PATH = ''blacklist''"
definition TX_VALIDLIST_PATH :: string where "TX_VALIDLIST_PATH = ''validlist''"
definition XG_PREFIX :: string where "XG_PREFIX = ''xg''"
definition MAX_GROUPS_FOR_XG :: nat where "MAX_GROUPS_FOR_XG = 5"
definition LOCK_LIST_SEPARATOR :: string where "LOCK_LIST_SEPARATOR = ''!XG_LIST!''"
definition DEFAULT_NUM_RETRIES :: nat where "DEFAULT_NUM_RETRIES = 5"
definition DEFAULT_ZK_TIMEOUT :: nat where "DEFAULT_ZK_TIMEOUT = 3"

definition get_app_root_path :: "string \<Rightarrow> string" where
  "get_app_root_path app_id = py_join PATH_SEPARATOR [APPS_PATH, quote_plus app_id]"

definition get_transaction_prefix_path :: "string \<Rightarrow> string" where
  "get_transaction_prefix_path app_id =
     py_join PATH_SEPARATOR [get_app_root_path app_id, APP_TX_PATH]"

definition get_txn_path_before_getting_id :: "string \<Rightarrow> string" where
  "get_txn_path_before_getting_id app_id =
     py_join PATH_SEPARATOR [get_transaction_prefix_path app_id, APP_TX_PREFIX]"

definition get_transaction_path :: "string \<Rightarrow> int \<Rightarrow> string" where
  "get_transaction_path app_id txid =
     py_join PATH_SEPARATOR [get_app_root_path app_id, APP_TX_PATH, APP_TX_PREFIX @ fmt_010d txid]"

definition get_transaction_lock_list_path :: "string \<Rightarrow> int \<Rightarrow> string" where
  "get_transaction_lock_list_path app_id txid =
     py_join PATH_SEPARATOR [get_transaction_path app_id txid, TX_LOCK_PATH]"

definition get_blacklist_root_path :: "string \<Rightarrow> string" where
  "get_blacklist_root_path app_id =
     py_join PATH_SEPARATOR [get_transaction_prefix_path app_id, TX_BLACKLIST_PATH]"

definition get_valid_transaction_root_path :: "string \<Rightarrow> string" where
  "get_valid_transaction_root_path app_id =
     py_join PATH_SEPARATOR [get_transaction_prefix_path app_id, TX_VALIDLIST_PATH]"

definition get_valid_transaction_path :: "string \<Rightarrow> string \<Rightarrow> string" where
  "get_valid_transaction_path app_id entity_key =
     py_join PATH_SEPARATOR [get_valid_transaction_root_path app_id, quote_plus entity_key]"

definition get_lock_root_path :: "string \<Rightarrow> string \<Rightarrow> string" where
  "get_lock_root_path app_id k =
     py_join PATH_SEPARATOR [get_app_root_path app_id, APP_LOCK_PATH, quote_plus k]"

definition get_xg_path :: "string \<Rightarrow> int \<Rightarrow> string" where
  "get_xg_path app_id tx_id =
     py_join PATH_SEPARATOR
       [get_app_root_path app_id, APP_TX_PATH, APP_TX_PREFIX @ fmt_010d tx_id, XG_PREFIX]"

text \<open>
  \<open>reestablish_connection\<close>: the handle is stopped, which ends the session and with it the
  session's ephemeral nodes, and a new handle is started.
\<close>

definition reestablish_connection :: "zk \<Rightarrow> zk" where
  "reestablish_connection z =
     z\<lparr>nodes := filter (\<lambda>(q, _). q \<notin> set (ephemerals z)) (nodes z),
       cversions := filter (\<lambda>(q, _). q \<notin> set (ephemerals z)) (cversions z),
       ephemerals := [],
       reconnects := Suc (reconnects z)\<rparr>"

text \<open>
  \<open>run_with_timeout\<close>. The alarm that fires after \<open>timeout_time\<close> seconds is the wrapped
  call raising \<open>ZKTimeoutException\<close>. The branches follow the source's \<open>except\<close> clauses in
  their order; the operation-timeout branch re-invokes the function without \<open>*args\<close>, as
  the source does. The last branch is the source's \<open>ZookeeperError\<close> and \<open>Exception\<close>
  clauses, which do the same.
\<close>

fun run_with_timeout ::
  "nat \<Rightarrow> nat \<Rightarrow> (arg list \<Rightarrow> val action) \<Rightarrow> arg list \<Rightarrow> val action" where
  "run_with_timeout timeout_time 0 function args z =
     (Inl (ZKTransactionException NoMoreRetries), z)"
| "run_with_timeout timeout_time (Suc n) function args z =
     (case function args z of
        (Inr retval, z1) \<Rightarrow> (Inr retval, z1)
      | (Inl e, z1) \<Rightarrow>
          (case e of
             ZKTimeoutException \<Rightarrow> (Inl (ZKTransactionException CallTimedOut), z1)
           | NoNodeError \<Rightarrow> (Inl NoNodeError, z1)
           | NodeExistsError \<Rightarrow> (Inl NodeExistsError, z1)
           | ConnectionLoss \<Rightarrow>
               run_with_timeout timeout_time n function args (reestablish_connection z1)
           | ConnectionClosedError \<Rightarrow>
               run_with_timeout timeout_time n function args (reestablish_connection z1)
           | OperationTimeoutError \<Rightarrow>
               run_with_timeout timeout_time n function [] (reestablish_connection z1)
           | SessionExpiredError \<Rightarrow>
               run_with_timeout timeout_time n function args (reestablish_connection z1)
           | DataInconsistency \<Rightarrow> (Inl DataInconsistency, z1)
           | BadArgumentsError \<Rightarrow> (Inl BadArgumentsError, z1)
           | SystemZookeeperError \<Rightarrow> (Inl SystemZookeeperError, z1)
           | _ \<Rightarrow> run_with_timeout timeout_time n function args z1))"


definition the_time :: "nat action" where
  "the_time z = (let (t, z1) = time_time z in (Inr t, z1))"

fun for_each :: "'a list \<Rightarrow> ('a \<Rightarrow> 'b action) \<Rightarrow> unit action" where
  "for_each [] body = ret ()"
| "for_each (x # xs) body = andthen (body x) (\<lambda>_. for_each xs body)"

text \<open>
  \<open>create_node\<close>. The loop body is a \<open>try\<close> with a \<open>finally\<close> and no \<open>except\<close>: it either
  returns or lets the exception of \<open>run_with_timeout\<close> through, so the second equation has
  no recursive call and the \<open>raise\<close> after the loop is reached only with no retries to
  start with.
\<close>

fun create_node_loop :: "nat \<Rightarrow> string \<Rightarrow> string \<Rightarrow> unit action" where
  "create_node_loop 0 path val = raise (ZKTransactionException UnableToCreateNode)"
| "create_node_loop (Suc retries_left) path val =
     andthen (run_with_timeout DEFAULT_ZK_TIMEOUT DEFAULT_NUM_RETRIES handle_create
                [AStr path, AStr val, ANone, ABool False, ABool False, ABool True])
       (\<lambda>_. ret ())"

definition create_node :: "string \<Rightarrow> string \<Rightarrow> unit action" where
  "create_node path val = create_node_loop DEFAULT_NUM_RETRIES path val"

text \<open>
  \<open>create_sequence_node\<close>. \<open>except ZookeeperError: pass\<close> sends the loop round again;
  anything else (the \<open>ZKTransactionException\<close> of \<open>run_with_timeout\<close>, a \<open>ValueError\<close> of
  \<open>long\<close>) leaves the function.
\<close>

fun create_sequence_node_loop :: "nat \<Rightarrow> string \<Rightarrow> string \<Rightarrow> int action" where
  "create_sequence_node_loop 0 path val z =
     (Inl (ZKTransactionException UnableToCreateSequenceNode), z)"
| "create_sequence_node_loop (Suc retries_left) path val z =
     (case run_with_timeout DEFAULT_ZK_TIMEOUT DEFAULT_NUM_RETRIES handle_create
             [AStr path, AStr val, ANone, ABool False, ABool True, ABool True] z of
        (Inl e, z1) \<Rightarrow>
          if is_ZookeeperError e then create_sequence_node_loop retries_left path val z1
          else (Inl e, z1)
      | (Inr txn_id_path, z1) \<Rightarrow>
          if truthy txn_id_path then
            (case py_long (py_lstrip APP_TX_PREFIX
                             (last (py_split (str_val txn_id_path) PATH_SEPARATOR))) of
               None \<Rightarrow> (Inl ValueError, z1)
             | Some txn_id \<Rightarrow>
                 if txn_id = 0 then
                   (case handle_delete_async [AStr (str_val txn_id_path)]
                           (z1\<lparr>logged := logged z1 @ [CreatedSequenceIdZero]\<rparr>) of
                      (Inl e, z2) \<Rightarrow>
                        if is_ZookeeperError e
                        then create_sequence_node_loop retries_left path val z2
                        else (Inl e, z2)
                    | (Inr _, z2) \<Rightarrow> create_sequence_node_loop retries_left path val z2)
                 else (Inr txn_id, z1))
          else create_sequence_node_loop retries_left path val z1)"

definition create_sequence_node :: "string \<Rightarrow> string \<Rightarrow> int action" where
  "create_sequence_node path val = create_sequence_node_loop DEFAULT_NUM_RETRIES path val"

definition get_transaction_id :: "string \<Rightarrow> bool \<Rightarrow> int action" where
  "get_transaction_id app_id is_xg =
     andthen the_time (\<lambda>t.
       let timestamp = str_time t;
           app_path = get_txn_path_before_getting_id app_id
       in andthen (create_sequence_node app_path timestamp) (\<lambda>txn_id.
            if is_xg
            then andthen (create_node (get_xg_path app_id txn_id) timestamp) (\<lambda>_. ret txn_id)
            else ret txn_id))"

definition is_blacklisted :: "string \<Rightarrow> int \<Rightarrow> bool action" where
  "is_blacklisted app_id txid =
     (let blacklist_root = get_blacklist_root_path app_id
      in andthen (run_with_timeout DEFAULT_ZK_TIMEOUT DEFAULT_NUM_RETRIES handle_exists
                    [AStr blacklist_root]) (\<lambda>r.
         andthen (if \<not> truthy r
                  then handle_create [AStr blacklist_root, AStr DEFAULT_VAL, ANone,
                                      ABool False, ABool False, ABool True]
                  else ret VNone) (\<lambda>_.
         try_except
           (andthen (run_with_timeout DEFAULT_ZK_TIMEOUT DEFAULT_NUM_RETRIES handle_get_children
                       [AStr blacklist_root]) (\<lambda>r.
            andthen (as_list r) (\<lambda>blacklist. ret (str_int txid \<in> set blacklist))))
           (\<lambda>e. if e = NoNodeError then ret False else raise e))))"

definition check_transaction :: "string \<Rightarrow> int \<Rightarrow> bool action" where
  "check_transaction app_id txid =
     (let txpath = get_transaction_path app_id txid
      in andthen (is_blacklisted app_id txid) (\<lambda>b.
           if b then raise (ZKTransactionException TransactionTimedOut)
           else andthen (run_with_timeout DEFAULT_ZK_TIMEOUT DEFAULT_NUM_RETRIES handle_exists
                           [AStr txpath]) (\<lambda>r.
                  if \<not> truthy r then raise (ZKTransactionException TransactionNotValid)
                  else ret True)))"

definition is_in_transaction :: "string \<Rightarrow> int \<Rightarrow> bool action" where
  "is_in_transaction app_id txid =
     (let tx_lock_path = get_transaction_lock_list_path app_id txid
      in andthen (is_blacklisted app_id txid) (\<lambda>b.
           if b then raise (ZKTransactionException TransactionTimedOut)
           else andthen (run_with_timeout DEFAULT_ZK_TIMEOUT DEFAULT_NUM_RETRIES handle_exists
                           [AStr tx_lock_path]) (\<lambda>r.
                  if \<not> truthy r then ret False else ret True)))"

definition is_xg :: "string \<Rightarrow> int \<Rightarrow> val action" where
  "is_xg app_id tx_id =
     try_except (handle_exists [AStr (get_xg_path app_id tx_id)])
       (\<lambda>e. if is_ZookeeperError e then raise (ZKTransactionException ZooKeeperException)
            else raise e)"

text \<open>
  \<open>acquire_additional_lock\<close>. The source's \<open>while retry\<close> loop clears \<open>retry\<close> on entry and
  never sets it again, so its body runs once.
\<close>

definition acquire_additional_lock :: "string \<Rightarrow> int \<Rightarrow> string \<Rightarrow> bool \<Rightarrow> bool action" where
  "acquire_additional_lock app_id txid entity_key create =
     (let txpath = get_transaction_path app_id txid;
          lockrootpath = get_lock_root_path app_id entity_key
      in andthen
           (try_except
              (run_with_timeout DEFAULT_ZK_TIMEOUT DEFAULT_NUM_RETRIES handle_create
                 [AStr lockrootpath, AStr txpath, ANone, ABool False, ABool False, ABool True])
              (\<lambda>e. if e = NodeExistsError
                    then andthen
                           (try_except
                              (andthen (run_with_timeout DEFAULT_ZK_TIMEOUT DEFAULT_NUM_RETRIES
                                          handle_get [AStr lockrootpath]) (\<lambda>r.
                               andthen (item0 r) (\<lambda>tx_lockpath. ret ())))
                              (\<lambda>e2. if e2 = NoNodeError then ret () else raise e2))
                           (\<lambda>_. raise (ZKTransactionException AlreadyHeld))
                    else raise e))
           (\<lambda>lockpath.
              let transaction_lock_path = get_transaction_lock_list_path app_id txid
              in if create
                 then andthen (run_with_timeout DEFAULT_ZK_TIMEOUT DEFAULT_NUM_RETRIES
                                 handle_create_async
                                 [AStr transaction_lock_path, AStr (str_val lockpath), ANone,
                                  ABool False, ABool False])
                        (\<lambda>_. ret True)
                 else andthen (run_with_timeout DEFAULT_ZK_TIMEOUT DEFAULT_NUM_RETRIES handle_get
                                 [AStr transaction_lock_path]) (\<lambda>r.
                      andthen (item0 r) (\<lambda>tx_lockpath.
                        let lock_list = py_split tx_lockpath LOCK_LIST_SEPARATOR
                        in if length lock_list \<ge> MAX_GROUPS_FOR_XG
                           then raise (ZKTransactionException TooManyGroups)
                           else andthen
                                  (run_with_timeout DEFAULT_ZK_TIMEOUT DEFAULT_NUM_RETRIES
                                     handle_set_async
                                     [AStr transaction_lock_path,
                                      AStr (py_join LOCK_LIST_SEPARATOR
                                              (lock_list @ [str_val lockpath]))])
                                  (\<lambda>_. ret True)))))"

definition acquire_lock :: "string \<Rightarrow> int \<Rightarrow> string \<Rightarrow> bool action" where
  "acquire_lock app_id txid entity_key =
     (let lockrootpath = get_lock_root_path app_id entity_key
      in andthen (is_in_transaction app_id txid) (\<lambda>in_tx.
           if in_tx then
             (let transaction_lock_path = get_transaction_lock_list_path app_id txid
              in andthen (run_with_timeout DEFAULT_ZK_TIMEOUT DEFAULT_NUM_RETRIES handle_get
                            [AStr transaction_lock_path]) (\<lambda>r.
                 andthen (item0 r) (\<lambda>prelockpath.
                   let lock_list = py_split prelockpath LOCK_LIST_SEPARATOR
                   in if lockrootpath \<in> set lock_list then ret True
                      else andthen (is_xg app_id txid) (\<lambda>x.
                             if truthy x
                             then acquire_additional_lock app_id txid entity_key False
                             else raise (ZKTransactionException DifferentRootEntity)))))
           else acquire_additional_lock app_id txid entity_key True))"

text \<open>
  \<open>release_lock\<close>. The \<open>try\<close> block yields \<open>False\<close> when it falls through to the code after
  it, and \<open>True\<close> when the \<open>except NoNodeError\<close> clause returned \<open>True\<close> from the function.
\<close>

definition release_lock :: "string \<Rightarrow> int \<Rightarrow> bool action" where
  "release_lock app_id txid =
     andthen (check_transaction app_id txid) (\<lambda>_.
       let txpath = get_transaction_path app_id txid;
           transaction_lock_path = get_transaction_lock_list_path app_id txid
       in andthen
            (try_except
               (andthen (run_with_timeout DEFAULT_ZK_TIMEOUT DEFAULT_NUM_RETRIES handle_get
                           [AStr transaction_lock_path]) (\<lambda>r.
                andthen (item0 r) (\<lambda>lock_list_str.
                andthen (for_each (py_split lock_list_str LOCK_LIST_SEPARATOR) (\<lambda>lock_path.
                           run_with_timeout DEFAULT_ZK_TIMEOUT DEFAULT_NUM_RETRIES
                             handle_delete_async [AStr lock_path])) (\<lambda>_.
                andthen (run_with_timeout DEFAULT_ZK_TIMEOUT DEFAULT_NUM_RETRIES handle_delete
                           [AStr transaction_lock_path]) (\<lambda>_. ret False)))))
               (\<lambda>e. if e = NoNodeError
                     then andthen (is_blacklisted app_id txid) (\<lambda>b.
                            if b then raise (ZKTransactionException UnableToReleaseLock)
                            else ret True)
                     else raise e))
            (\<lambda>returned.
               if returned then ret True
               else andthen (is_xg app_id txid) (\<lambda>x.
                    andthen (if truthy x
                             then run_with_timeout DEFAULT_ZK_TIMEOUT DEFAULT_NUM_RETRIES
                                    handle_delete_async [AStr (get_xg_path app_id txid)]
                             else ret VNone) (\<lambda>_.
                    andthen (run_with_timeout DEFAULT_ZK_TIMEOUT DEFAULT_NUM_RETRIES
                               handle_get_children [AStr txpath]) (\<lambda>r.
                    andthen (as_list r) (\<lambda>children.
                    andthen (for_each children (\<lambda>child.
                               run_with_timeout DEFAULT_ZK_TIMEOUT DEFAULT_NUM_RETRIES
                                 handle_delete_async
                                 [AStr (py_join PATH_SEPARATOR [txpath, child])])) (\<lambda>_.
                    andthen (run_with_timeout DEFAULT_ZK_TIMEOUT DEFAULT_NUM_RETRIES
                               handle_delete_async [AStr txpath]) (\<lambda>_. ret True))))))))"


text \<open>\<open>re.match("^" + TX_UPDATEDKEY_PREFIX, child)\<close> and \<open>re.match("^" + APP_TX_PREFIX + '\d', txid)\<close>.\<close>

definition re_match_ukey :: "string \<Rightarrow> bool" where
  "re_match_ukey child = prefix TX_UPDATEDKEY_PREFIX child"

definition re_match_tx_digit :: "string \<Rightarrow> bool" where
  "re_match_tx_digit txid =
     (prefix APP_TX_PREFIX txid \<and>
      (case drop (length APP_TX_PREFIX) txid of [] \<Rightarrow> False | c # _ \<Rightarrow> is_digit c))"

text \<open>
  \<open>notify_failed_transaction\<close>. The handle is called directly here, not through
  \<open>run_with_timeout\<close>. The result is \<open>Some True\<close>, or \<open>None\<close> for the bare \<open>return\<close> of the
  first \<open>except ZookeeperError\<close> clause. The last loop deletes the child and then the
  transaction node inside its body, as the source does.
\<close>

definition copy_valid_ids :: "string \<Rightarrow> string \<Rightarrow> string \<Rightarrow> unit action" where
  "copy_valid_ids app_id txpath child =
     (if re_match_ukey child then
        andthen (handle_get [AStr (py_join PATH_SEPARATOR [txpath, child])]) (\<lambda>r.
        andthen (item0 r) (\<lambda>v.
          case py_split v PATH_SEPARATOR of
            k # vid # _ \<Rightarrow>
              (let entity_key = unquote_plus k;
                   vtxroot = get_valid_transaction_root_path app_id
               in andthen (handle_exists [AStr vtxroot]) (\<lambda>r.
                  andthen (if \<not> truthy r
                           then handle_create [AStr vtxroot, AStr DEFAULT_VAL, ANone,
                                               ABool False, ABool False, ABool True]
                           else ret VNone) (\<lambda>_.
                  andthen (handle_create_async
                             [AStr (get_valid_transaction_path app_id entity_key), AStr vid, ANone])
                    (\<lambda>_. ret ()))))
          | _ \<Rightarrow> raise IndexError))
      else ret ())"

definition blacklist_transaction :: "string \<Rightarrow> int \<Rightarrow> unit action" where
  "blacklist_transaction app_id txid =
     (let txpath = get_transaction_path app_id txid;
          blacklist_root = get_blacklist_root_path app_id
      in andthen the_time (\<lambda>t.
         andthen (handle_exists [AStr blacklist_root]) (\<lambda>r.
         andthen (if \<not> truthy r
                  then handle_create [AStr blacklist_root, AStr DEFAULT_VAL, ANone,
                                      ABool False, ABool False, ABool True]
                  else ret VNone) (\<lambda>_.
         andthen (handle_create_async
                    [AStr (py_join PATH_SEPARATOR [blacklist_root, str_int txid]),
                     AStr (str_time t), ANone]) (\<lambda>_.
         andthen (handle_get_children [AStr txpath]) (\<lambda>r.
         andthen (as_list r) (\<lambda>children.
           for_each children (copy_valid_ids app_id txpath))))))))"

definition notify_failed_transaction :: "string \<Rightarrow> int \<Rightarrow> bool option action" where
  "notify_failed_transaction app_id txid z =
     (let txpath = get_transaction_path app_id txid
      in andthen
           (try_except
              (andthen (handle_get [AStr (py_join PATH_SEPARATOR [txpath, TX_LOCK_PATH])]) (\<lambda>r.
               andthen (item0 r) (\<lambda>lockpath.
                 ret (Some (py_split lockpath LOCK_LIST_SEPARATOR)))))
              (\<lambda>e. if e = NoNodeError then ret (Some [])
                    else if is_ZookeeperError e then ret None
                    else raise e))
           (\<lambda>found.
              case found of
                None \<Rightarrow> ret None
              | Some lock_list \<Rightarrow>
                  andthen
                    (try_except
                       (andthen (if lock_list \<noteq> [] then blacklist_transaction app_id txid
                                 else ret ()) (\<lambda>_.
                        andthen (for_each lock_list (\<lambda>lock. handle_delete_async [AStr lock])) (\<lambda>_.
                        andthen (is_xg app_id txid) (\<lambda>x.
                        andthen (if truthy x
                                 then handle_delete_async [AStr (get_xg_path app_id txid)]
                                 else ret VNone) (\<lambda>_.
                        andthen (handle_get_children [AStr txpath]) (\<lambda>r.
                        andthen (as_list r) (\<lambda>items.
                          for_each items (\<lambda>item.
                            andthen (handle_delete_async
                                       [AStr (py_join PATH_SEPARATOR [txpath, item])]) (\<lambda>_.
                              handle_delete_async [AStr txpath])))))))))
                       (\<lambda>e. if is_ZookeeperError e then ret () else raise e))
                    (\<lambda>_. ret (Some True)))
           (z\<lparr>logged := logged z @ [NotifyFailedTransaction app_id txid]\<rparr>))"

text \<open>
  \<open>execute_garbage_collection\<close>. The loop yields \<open>False\<close> when an \<open>except ZookeeperError\<close>
  clause returned from the function, and \<open>True\<close> when it ran to its end.
\<close>

fun gc_loop :: "string \<Rightarrow> string \<Rightarrow> string list \<Rightarrow> bool action" where
  "gc_loop app_id txrootpath [] = ret True"
| "gc_loop app_id txrootpath (txid # rest) =
     (if \<not> re_match_tx_digit txid then gc_loop app_id txrootpath rest
      else andthen
             (try_except
                (andthen (handle_get [AStr (py_join PATH_SEPARATOR [txrootpath, txid])]) (\<lambda>r.
                 andthen (item0 r) (\<lambda>v.
                   case py_float v of
                     None \<Rightarrow> raise ValueError
                   | Some txtime \<Rightarrow>
                       andthen the_time (\<lambda>now.
                         if txtime + of_nat TX_TIMEOUT < of_nat now then
                           (case py_long (py_lstrip APP_TX_PREFIX txid) of
                              None \<Rightarrow> raise ValueError
                            | Some i \<Rightarrow>
                                andthen (notify_failed_transaction app_id i) (\<lambda>_. ret True))
                         else ret True))))
                (\<lambda>e. if e = NoNodeError then ret True
                      else if is_ZookeeperError e
                      then (\<lambda>z. (Inr False, reestablish_connection z))
                      else raise e))
             (\<lambda>continue. if continue then gc_loop app_id txrootpath rest else ret False))"

definition execute_garbage_collection :: "string \<Rightarrow> string \<Rightarrow> unit action" where
  "execute_garbage_collection app_id app_path =
     andthen the_time (\<lambda>start.
       let txrootpath = py_join PATH_SEPARATOR [app_path, APP_TX_PATH]
       in andthen
            (try_except
               (andthen (handle_get_children [AStr txrootpath]) (\<lambda>r.
                andthen (as_list r) (\<lambda>txlist. ret (Some txlist))))
               (\<lambda>e. if e = NoNodeError then ret None
                     else if is_ZookeeperError e
                     then (\<lambda>z. (Inr None, reestablish_connection z))
                     else raise e))
            (\<lambda>found.
               case found of
                 None \<Rightarrow> ret ()
               | Some txlist \<Rightarrow>
                   andthen (gc_loop app_id txrootpath txlist) (\<lambda>finished.
                     if finished then andthen the_time (\<lambda>_. ret ()) else ret ())))"

definition register_updated_key :: "string \<Rightarrow> int \<Rightarrow> int \<Rightarrow> string \<Rightarrow> bool action" where
  "register_updated_key app_id current_txid target_txid entity_key =
     (let vtxpath = get_valid_transaction_path app_id entity_key
      in andthen (run_with_timeout DEFAULT_ZK_TIMEOUT DEFAULT_NUM_RETRIES handle_exists
                    [AStr vtxpath]) (\<lambda>r.
           if truthy r
           then andthen (run_with_timeout DEFAULT_ZK_TIMEOUT DEFAULT_NUM_RETRIES handle_set_async
                           [AStr vtxpath, AStr (str_int target_txid)]) (\<lambda>_. ret True)
           else
             (let val = py_join PATH_SEPARATOR [quote_plus entity_key, str_int target_txid];
                  txpath = get_transaction_path app_id current_txid
              in andthen (run_with_timeout DEFAULT_ZK_TIMEOUT DEFAULT_NUM_RETRIES handle_exists
                            [AStr txpath]) (\<lambda>r.
                   if truthy r
                   then andthen (run_with_timeout DEFAULT_ZK_TIMEOUT DEFAULT_NUM_RETRIES
                                   handle_create_async
                                   [AStr (py_join PATH_SEPARATOR [txpath, TX_UPDATEDKEY_PREFIX]),
                                    AStr val, ANone, ABool False, ABool True]) (\<lambda>_. ret True)
                   else raise (ZKTransactionException TransactionNotValid)))))"

section \<open>Scenarios\<close>

text \<open>
  The states the concrete theorems run on. \<open>zk_empty\<close> is a fresh name space with no fault
  scheduled and the clock at 100 seconds.
\<close>

definition zk_empty :: zk where
  "zk_empty =
     \<lparr>nodes = [], cversions = [], ephemerals = [], faults = [], clock = [100],
      reconnects = 0, trace = [], logged = []\<rparr>"

text \<open>One node \<open>/n\<close> holding \<open>v\<close>, and a schedule of faults.\<close>

definition zk_one_node :: "exc option list \<Rightarrow> zk" where
  "zk_one_node fs = zk_empty\<lparr>nodes := [(''/n'', ''v'')], faults := fs\<rparr>"

text \<open>
  A service that answers the two sequence-node creations and then fails every request
  with the error \<open>e\<close>, ten times over.
\<close>

definition zk_failing_after_two :: "exc \<Rightarrow> zk" where
  "zk_failing_after_two e = zk_empty\<lparr>faults := [None, None] @ replicate 10 (Some e)\<rparr>"

text \<open>
  The nodes that \<open>get_transaction_id('app', False)\<close> leaves on the empty name space:
  transaction 1 of application \<open>app\<close>, with no lock yet.
\<close>

definition zk_fresh_tx :: zk where
  "zk_fresh_tx =
     zk_empty\<lparr>nodes :=
       [(''/appscale'', []), (''/appscale/apps'', []), (''/appscale/apps/app'', []),
        (''/appscale/apps/app/txids'', []),
        (''/appscale/apps/app/txids/tx0000000001'', ''100.0'')]\<rparr>"

text \<open>
  The nodes after \<open>acquire_lock('app', 1, 'k1')\<close> and
  \<open>register_updated_key('app', 1, 1, 'k1')\<close> on top of that: the non-XG transaction 1 holds
  the lock of \<open>k1\<close> and has one \<open>ukey\<close> child.
\<close>

definition zk_tx_with_ukey :: zk where
  "zk_tx_with_ukey =
     zk_empty\<lparr>nodes :=
       [(''/appscale'', []), (''/appscale/apps'', []), (''/appscale/apps/app'', []),
        (''/appscale/apps/app/txids'', []),
        (''/appscale/apps/app/txids/tx0000000001'', ''100.0''),
        (''/appscale/apps/app/txids/blacklist'', ''default''),
        (''/appscale/apps/app/locks'', []),
        (''/appscale/apps/app/locks/k1'', ''/appscale/apps/app/txids/tx0000000001''),
        (''/appscale/apps/app/txids/tx0000000001/lockpath'', ''/appscale/apps/app/locks/k1''),
        (''/appscale/apps/app/txids/tx0000000001/ukey0000000001'', ''k1/1'')]\<rparr>"

text \<open>
  Transaction 1 has failed: it is on the blacklist, its key is on the valid list, its
  node and its lock are gone.
\<close>

definition zk_blacklisted :: zk where
  "zk_blacklisted =
     zk_empty\<lparr>nodes :=
       [(''/appscale'', []), (''/appscale/apps'', []), (''/appscale/apps/app'', []),
        (''/appscale/apps/app/txids'', []),
        (''/appscale/apps/app/txids/blacklist'', ''default''),
        (''/appscale/apps/app/locks'', []),
        (''/appscale/apps/app/txids/blacklist/1'', ''100.0''),
        (''/appscale/apps/app/txids/validlist'', ''default''),
        (''/appscale/apps/app/txids/validlist/k1'', ''1'')]\<rparr>"

text \<open>
  The same with the transaction node still there: the blacklist entry of transaction 1
  has been written and its node has not been deleted yet.
\<close>

definition zk_blacklisted_stale :: zk where
  "zk_blacklisted_stale =
     zk_empty\<lparr>nodes :=
       [(''/appscale'', []), (''/appscale/apps'', []), (''/appscale/apps/app'', []),
        (''/appscale/apps/app/txids'', []),
        (''/appscale/apps/app/txids/tx0000000001'', ''100.0''),
        (''/appscale/apps/app/txids/blacklist'', ''default''),
        (''/appscale/apps/app/txids/blacklist/1'', ''100.0'')]\<rparr>"

text \<open>
  The nodes after \<open>acquire_lock('app', 1, 'k1')\<close> and a second
  \<open>get_transaction_id('app', False)\<close>: transaction 1 holds the lock of \<open>k1\<close>, and the
  second transaction got the identifier 3.
\<close>

definition zk_two_tx :: zk where
  "zk_two_tx =
     zk_empty\<lparr>nodes :=
       [(''/appscale'', []), (''/appscale/apps'', []), (''/appscale/apps/app'', []),
        (''/appscale/apps/app/txids'', []),
        (''/appscale/apps/app/txids/tx0000000001'', ''100.0''),
        (''/appscale/apps/app/txids/blacklist'', ''default''),
        (''/appscale/apps/app/locks'', []),
        (''/appscale/apps/app/locks/k1'', ''/appscale/apps/app/txids/tx0000000001''),
        (''/appscale/apps/app/txids/tx0000000001/lockpath'', ''/appscale/apps/app/locks/k1''),
        (''/appscale/apps/app/txids/tx0000000003'', ''100.0'')]\<rparr>"

text \<open>
  The nodes that \<open>get_transaction_id('app', True)\<close> leaves on the empty name space: the
  XG transaction 1, with its \<open>xg\<close> child and no lock yet.
\<close>

definition zk_xg_tx :: zk where
  "zk_xg_tx =
     zk_empty\<lparr>nodes :=
       [(''/appscale'', []), (''/appscale/apps'', []), (''/appscale/apps/app'', []),
        (''/appscale/apps/app/txids'', []),
        (''/appscale/apps/app/txids/tx0000000001'', ''100.0''),
        (''/appscale/apps/app/txids/tx0000000001/xg'', ''100.0'')]\<rparr>"

text \<open>
  The same name space with a schedule: the service answers the next four requests and
  answers the fifth with \<open>NoNodeError\<close>. For an \<open>acquire_lock\<close> of transaction 3 on \<open>k1\<close> the
  fifth request is the read of the lock root: the owner has released the lock between the
  refused creation and the read.
\<close>

definition zk_two_tx_read_lost :: zk where
  "zk_two_tx_read_lost = zk_two_tx\<lparr>faults := [None, None, None, None, Some NoNodeError]\<rparr>"

text \<open>
  The nodes after a further \<open>acquire_lock('app', 3, 'k2')\<close>: the non-XG transaction 1 holds
  the lock of \<open>k1\<close> and the non-XG transaction 3 holds the lock of \<open>k2\<close>.
\<close>

definition zk_two_locks :: zk where
  "zk_two_locks =
     zk_empty\<lparr>nodes :=
       [(''/appscale'', []), (''/appscale/apps'', []), (''/appscale/apps/app'', []),
        (''/appscale/apps/app/txids'', []),
        (''/appscale/apps/app/txids/tx0000000001'', ''100.0''),
        (''/appscale/apps/app/txids/blacklist'', ''default''),
        (''/appscale/apps/app/locks'', []),
        (''/appscale/apps/app/locks/k1'', ''/appscale/apps/app/txids/tx0000000001''),
        (''/appscale/apps/app/txids/tx0000000001/lockpath'', ''/appscale/apps/app/locks/k1''),
        (''/appscale/apps/app/txids/tx0000000003'', ''100.0''),
        (''/appscale/apps/app/locks/k2'', ''/appscale/apps/app/txids/tx0000000003''),
        (''/appscale/apps/app/txids/tx0000000003/lockpath'', ''/appscale/apps/app/locks/k2'')]\<rparr>"

section \<open>Notions used in the statements and proofs\<close>

definition blacklisted :: "zk \<Rightarrow> string \<Rightarrow> int \<Rightarrow> bool" where
  "blacklisted z app_id txid = (str_int txid \<in> set (children_of z (get_blacklist_root_path app_id)))"

definition with_blacklist_root :: "string \<Rightarrow> zk \<Rightarrow> zk" where
  "with_blacklist_root app_id z =
     (if node_exists z (get_blacklist_root_path app_id) then z
      else add_node (get_blacklist_root_path app_id) DEFAULT_VAL False
             (ensure_path (get_transaction_prefix_path app_id) z))"

definition blacklist_requests :: "string \<Rightarrow> zk \<Rightarrow> (meth \<times> string) list" where
  "blacklist_requests app_id z =
     (if node_exists z (get_blacklist_root_path app_id)
      then [(MExists, get_blacklist_root_path app_id), (MGetChildren, get_blacklist_root_path app_id)]
      else [(MExists, get_blacklist_root_path app_id), (MCreate, get_blacklist_root_path app_id),
            (MGetChildren, get_blacklist_root_path app_id)])"

definition quiet_raises :: "exc set \<Rightarrow> 'a action \<Rightarrow> bool" where
  "quiet_raises E m =
     (\<forall>z. faults z = [] \<longrightarrow> faults (snd (m z)) = [] \<and> (\<forall>e. fst (m z) = Inl e \<longrightarrow> e \<in> E))"

definition release_rest :: "string \<Rightarrow> int \<Rightarrow> bool action" where
  "release_rest app_id txid =
     (let txpath = get_transaction_path app_id txid;
           transaction_lock_path = get_transaction_lock_list_path app_id txid
       in andthen
            (try_except
               (andthen (run_with_timeout DEFAULT_ZK_TIMEOUT DEFAULT_NUM_RETRIES handle_get
                           [AStr transaction_lock_path]) (\<lambda>r.
                andthen (item0 r) (\<lambda>lock_list_str.
                andthen (for_each (py_split lock_list_str LOCK_LIST_SEPARATOR) (\<lambda>lock_path.
                           run_with_timeout DEFAULT_ZK_TIMEOUT DEFAULT_NUM_RETRIES
                             handle_delete_async [AStr lock_path])) (\<lambda>_.
                andthen (run_with_timeout DEFAULT_ZK_TIMEOUT DEFAULT_NUM_RETRIES handle_delete
                           [AStr transaction_lock_path]) (\<lambda>_. ret False)))))
               (\<lambda>e. if e = NoNodeError
                     then andthen (is_blacklisted app_id txid) (\<lambda>b.
                            if b then raise (ZKTransactionException UnableToReleaseLock)
                            else ret True)
                     else raise e))
            (\<lambda>returned.
               if returned then ret True
               else andthen (is_xg app_id txid) (\<lambda>x.
                    andthen (if truthy x
                             then run_with_timeout DEFAULT_ZK_TIMEOUT DEFAULT_NUM_RETRIES
                                    handle_delete_async [AStr (get_xg_path app_id txid)]
                             else ret VNone) (\<lambda>_.
                    andthen (run_with_timeout DEFAULT_ZK_TIMEOUT DEFAULT_NUM_RETRIES
                               handle_get_children [AStr txpath]) (\<lambda>r.
                    andthen (as_list r) (\<lambda>children.
                    andthen (for_each children (\<lambda>child.
                               run_with_timeout DEFAULT_ZK_TIMEOUT DEFAULT_NUM_RETRIES
                                 handle_delete_async
                                 [AStr (py_join PATH_SEPARATOR [txpath, child])])) (\<lambda>_.
                    andthen (run_with_timeout DEFAULT_ZK_TIMEOUT DEFAULT_NUM_RETRIES
                               handle_delete_async [AStr txpath]) (\<lambda>_. ret True))))))))"

definition service_errors :: "exc set" where
  "service_errors = {NoNodeError, NodeExistsError, NotEmptyError, TypeError}"

definition wrapped_errors :: "exc set" where
  "wrapped_errors = {NoNodeError, NodeExistsError, ZKTransactionException NoMoreRetries}"

definition release_errors :: "exc set" where
  "release_errors = {NoNodeError, NodeExistsError, TypeError,
                     ZKTransactionException NoMoreRetries,
                     ZKTransactionException UnableToReleaseLock}"

text \<open>
  Schedules of the service. \<open>answered n z\<close>: the service answers the next \<open>n\<close> synchronous
  requests. \<open>fault_at k z\<close>: what it answers the request after the next \<open>k\<close> with (\<open>None\<close>:
  it serves it). \<open>served reqs z\<close>: the state after the requests \<open>reqs\<close> have been answered,
  the name space as in \<open>z\<close>.
\<close>

definition answered :: "nat \<Rightarrow> zk \<Rightarrow> bool" where
  "answered n z = list_all (\<lambda>f. f = None) (take n (faults z))"

definition fault_at :: "nat \<Rightarrow> zk \<Rightarrow> exc option" where
  "fault_at k z = (if k < length (faults z) then faults z ! k else None)"

definition served :: "(meth \<times> string) list \<Rightarrow> zk \<Rightarrow> zk" where
  "served reqs z = z\<lparr>trace := trace z @ reqs, faults := drop (length reqs) (faults z)\<rparr>"

text \<open>
  The requests of an \<open>acquire_lock\<close> that gets as far as the lock root and finds it taken:
  the blacklist check, the test for the transaction's \<open>lockpath\<close>, for a transaction that
  has one the read of it and the test for the \<open>xg\<close> child, then the creation of the lock
  root and, last, the read of the lock root.
\<close>

definition contended_requests :: "string \<Rightarrow> int \<Rightarrow> string \<Rightarrow> zk \<Rightarrow> (meth \<times> string) list" where
  "contended_requests app_id txid entity_key z =
     blacklist_requests app_id z
     @ [(MExists, get_transaction_lock_list_path app_id txid)]
     @ (if lookup z (get_transaction_lock_list_path app_id txid) = None then []
        else [(MGet, get_transaction_lock_list_path app_id txid), (MExists, get_xg_path app_id txid)])
     @ [(MCreate, get_lock_root_path app_id entity_key),
        (MGet, get_lock_root_path app_id entity_key)]"

text \<open>
  The name space after the lock root of a key has been created for a transaction,
  with the missing ancestors.
\<close>

definition with_lock_root :: "string \<Rightarrow> int \<Rightarrow> string \<Rightarrow> zk \<Rightarrow> zk" where
  "with_lock_root app_id txid entity_key z =
     add_node (get_lock_root_path app_id entity_key) (get_transaction_path app_id txid) False
       (ensure_path (parent_of (get_lock_root_path app_id entity_key)) z)"

text \<open>
  The pieces the \<open>lockpath\<close> value of a transaction splits into on the XG separator;
  none when the transaction has no \<open>lockpath\<close>.
\<close>

definition lock_list :: "string \<Rightarrow> int \<Rightarrow> zk \<Rightarrow> string list" where
  "lock_list app_id txid z =
     (case lookup z (get_transaction_lock_list_path app_id txid) of
        None \<Rightarrow> []
      | Some v \<Rightarrow> py_split v LOCK_LIST_SEPARATOR)"

text \<open>
  The state in which \<open>acquire_lock\<close> calls \<open>acquire_additional_lock\<close>: the blacklist has
  been read, the \<open>lockpath\<close> looked up and, when there is one, read, and the \<open>xg\<close> child
  looked up.
\<close>

definition checked :: "string \<Rightarrow> int \<Rightarrow> zk \<Rightarrow> zk" where
  "checked app_id txid z =
     (with_blacklist_root app_id z)\<lparr>trace := trace z @ blacklist_requests app_id z
        @ [(MExists, get_transaction_lock_list_path app_id txid)]
        @ (if lookup z (get_transaction_lock_list_path app_id txid) = None then []
           else [(MGet, get_transaction_lock_list_path app_id txid),
                 (MExists, get_xg_path app_id txid)])\<rparr>"

text \<open>
  A client that calls \<open>acquire_lock\<close> for each key of a list in turn, whatever the
  outcome; the results in the order of the calls.
\<close>

fun acquire_locks :: "string \<Rightarrow> int \<Rightarrow> string list \<Rightarrow> zk \<Rightarrow> (exc + bool) list \<times> zk" where
  "acquire_locks app_id txid [] z = ([], z)"
| "acquire_locks app_id txid (k # ks) z =
     (case acquire_lock app_id txid k z of
        (r, z1) \<Rightarrow> (case acquire_locks app_id txid ks z1 of (rs, z2) \<Rightarrow> (r # rs, z2)))"

text \<open>
  How many lock roots a transaction may hold: \<open>MAX_GROUPS_FOR_XG\<close> when it has an \<open>xg\<close>
  child, one otherwise.
\<close>

definition max_groups :: "string \<Rightarrow> int \<Rightarrow> zk \<Rightarrow> nat" where
  "max_groups app_id txid z = (if node_exists z (get_xg_path app_id txid) then MAX_GROUPS_FOR_XG else 1)"

text \<open>
  The exception a transaction that holds as many as it may gets for a further key.
\<close>

definition refusal :: "string \<Rightarrow> int \<Rightarrow> zk \<Rightarrow> exc" where
  "refusal app_id txid z =
     (if node_exists z (get_xg_path app_id txid) then ZKTransactionException TooManyGroups
      else ZKTransactionException DifferentRootEntity)"

text \<open>
  The bound on the lock list of a transaction that has a \<open>lockpath\<close>: at most
  \<open>MAX_GROUPS_FOR_XG\<close> pieces, exactly one without an \<open>xg\<close> child, and no piece contains
  the character the separator starts with (no lock root path does).
\<close>

definition lock_list_ok :: "string \<Rightarrow> int \<Rightarrow> zk \<Rightarrow> bool" where
  "lock_list_ok app_id txid z =
     (lookup z (get_transaction_lock_list_path app_id txid) = None
      \<or> (length (lock_list app_id txid z) \<le> MAX_GROUPS_FOR_XG
         \<and> (\<not> node_exists z (get_xg_path app_id txid) \<longrightarrow> length (lock_list app_id txid z) = 1)
         \<and> list_all (\<lambda>r. CHR ''!'' \<notin> set r) (lock_list app_id txid z)))"

section \<open>The scenarios are what the calls leave\<close>

lemma zk_fresh_tx_nodes:
  "fst (get_transaction_id ''app'' False zk_empty) = Inr 1
   \<and> nodes (snd (get_transaction_id ''app'' False zk_empty)) = nodes zk_fresh_tx"
  by code_simp

lemma zk_xg_tx_nodes:
  "fst (get_transaction_id ''app'' True zk_empty) = Inr 1
   \<and> nodes (snd (get_transaction_id ''app'' True zk_empty)) = nodes zk_xg_tx"
  by code_simp

lemma zk_tx_with_ukey_nodes:
  "nodes (snd (register_updated_key ''app'' 1 1 ''k1''
       (snd (acquire_lock ''app'' 1 ''k1'' (snd (get_transaction_id ''app'' False zk_empty))))))
   = nodes zk_tx_with_ukey"
  by code_simp

lemma zk_two_tx_nodes:
  "nodes (snd (get_transaction_id ''app'' False
       (snd (acquire_lock ''app'' 1 ''k1'' (snd (get_transaction_id ''app'' False zk_empty))))))
   = nodes zk_two_tx"
  by code_simp

lemma zk_two_locks_nodes:
  "fst (acquire_lock ''app'' 3 ''k2'' zk_two_tx) = Inr True
   \<and> nodes (snd (acquire_lock ''app'' 3 ''k2'' zk_two_tx)) = nodes zk_two_locks"
  by code_simp

section \<open>Lemmas\<close>

subsection \<open>The name space under the primitive updates\<close>

lemma lookup_irrelevant [simp]:
  "lookup (z\<lparr>trace := t\<rparr>) = lookup z"
  "lookup (z\<lparr>faults := f\<rparr>) = lookup z"
  "lookup (z\<lparr>clock := c\<rparr>) = lookup z"
  "lookup (z\<lparr>logged := l\<rparr>) = lookup z"
  "lookup (z\<lparr>reconnects := r\<rparr>) = lookup z"
  by (simp_all add: lookup_def fun_eq_iff)

lemma node_exists_irrelevant [simp]:
  "node_exists (z\<lparr>trace := t\<rparr>) = node_exists z"
  "node_exists (z\<lparr>faults := f\<rparr>) = node_exists z"
  "node_exists (z\<lparr>clock := c\<rparr>) = node_exists z"
  "node_exists (z\<lparr>logged := l\<rparr>) = node_exists z"
  "node_exists (z\<lparr>reconnects := r\<rparr>) = node_exists z"
  by (simp_all add: node_exists_def fun_eq_iff)

lemma children_of_irrelevant [simp]:
  "children_of (z\<lparr>trace := t\<rparr>) = children_of z"
  "children_of (z\<lparr>faults := f\<rparr>) = children_of z"
  "children_of (z\<lparr>clock := c\<rparr>) = children_of z"
  "children_of (z\<lparr>logged := l\<rparr>) = children_of z"
  "children_of (z\<lparr>reconnects := r\<rparr>) = children_of z"
  by (simp_all add: children_of_def fun_eq_iff)

lemma seq_of_irrelevant [simp]:
  "seq_of (z\<lparr>trace := t\<rparr>) = seq_of z"
  "seq_of (z\<lparr>faults := f\<rparr>) = seq_of z"
  "seq_of (z\<lparr>clock := c\<rparr>) = seq_of z"
  "seq_of (z\<lparr>logged := l\<rparr>) = seq_of z"
  "seq_of (z\<lparr>reconnects := r\<rparr>) = seq_of z"
  by (simp_all add: seq_of_def fun_eq_iff)

lemma add_node_fields [simp]:
  "faults (add_node p v e z) = faults z"
  "clock (add_node p v e z) = clock z"
  "trace (add_node p v e z) = trace z"
  "logged (add_node p v e z) = logged z"
  "reconnects (add_node p v e z) = reconnects z"
  "ephemerals (add_node p v False z) = ephemerals z"
  by (simp_all add: add_node_def)

lemma add_node_commute [simp]:
  "add_node p v e (z\<lparr>trace := t\<rparr>) = (add_node p v e z)\<lparr>trace := t\<rparr>"
  "add_node p v e (z\<lparr>faults := f\<rparr>) = (add_node p v e z)\<lparr>faults := f\<rparr>"
  by (simp_all add: add_node_def seq_of_def)

lemma lookup_add_node:
  "lookup (add_node p v e z) q =
     (case lookup z q of Some w \<Rightarrow> Some w | None \<Rightarrow> if q = p then Some v else None)"
  by (simp add: lookup_def add_node_def map_add_def split: option.splits)

lemma map_of_filter_neq:
  "map_of (filter (\<lambda>(k, _). k \<noteq> p) xs) q = (if q = p then None else map_of xs q)"
  by (induction xs) auto

lemma lookup_del_node: "lookup (del_node p z) q = (if q = p then None else lookup z q)"
  by (simp add: lookup_def del_node_def map_of_filter_neq)

lemma fold_ensure_fields:
  "faults (fold (\<lambda>a z1. if node_exists z1 a then z1 else add_node a [] False z1) as z) = faults z
   \<and> clock (fold (\<lambda>a z1. if node_exists z1 a then z1 else add_node a [] False z1) as z) = clock z
   \<and> trace (fold (\<lambda>a z1. if node_exists z1 a then z1 else add_node a [] False z1) as z) = trace z
   \<and> logged (fold (\<lambda>a z1. if node_exists z1 a then z1 else add_node a [] False z1) as z) = logged z
   \<and> reconnects (fold (\<lambda>a z1. if node_exists z1 a then z1 else add_node a [] False z1) as z) = reconnects z
   \<and> ephemerals (fold (\<lambda>a z1. if node_exists z1 a then z1 else add_node a [] False z1) as z) = ephemerals z"
  by (induction as arbitrary: z) auto

lemma ensure_path_fields [simp]:
  "faults (ensure_path p z) = faults z"
  "clock (ensure_path p z) = clock z"
  "trace (ensure_path p z) = trace z"
  "logged (ensure_path p z) = logged z"
  "reconnects (ensure_path p z) = reconnects z"
  "ephemerals (ensure_path p z) = ephemerals z"
  by (simp_all add: ensure_path_def fold_ensure_fields)

lemma nodes_fold_ensure:
  "distinct as \<Longrightarrow>
   nodes (fold (\<lambda>a z1. if node_exists z1 a then z1 else add_node a [] False z1) as z)
     = nodes z @ map (\<lambda>a. (a, [])) (filter (\<lambda>a. \<not> node_exists z a) as)"
proof (induction as arbitrary: z)
  case Nil
  then show ?case by simp
next
  case (Cons a as)
  have same: "filter (\<lambda>b. \<not> node_exists (add_node a [] False z) b) as
                = filter (\<lambda>b. \<not> node_exists z b) as"
    using Cons.prems
    by (intro filter_cong) (auto simp: node_exists_def lookup_add_node split: option.splits)
  show ?case
    using Cons.prems Cons.IH [of "add_node a [] False z"] Cons.IH [of z]
    by (simp add: same) (simp add: add_node_def)
qed

lemma ancestors_distinct: "distinct (ancestors p @ [p])"
proof -
  have "inj_on (\<lambda>i. take i p) (set (filter (\<lambda>i. p ! i = CHR ''/'') [1..<length p]))"
    by (rule inj_onI) (metis (mono_tags, lifting) atLeastLessThan_iff filter_is_subset
        length_take min.absorb2 nat_less_le set_upt subsetD)
  then have "distinct (ancestors p)"
    by (simp add: ancestors_def distinct_map)
  moreover have "p \<notin> set (ancestors p)"
    by (auto simp: ancestors_def) (metis length_take less_irrefl min.absorb2 nat_less_le)
  ultimately show ?thesis by simp
qed

lemma ancestors_prefix: "a \<in> set (ancestors p) \<Longrightarrow> strict_prefix a p \<and> a \<noteq> []"
  by (auto simp: ancestors_def strict_prefix_def take_is_prefix)

lemma nodes_ensure_path:
  "nodes (ensure_path p z)
     = nodes z @ map (\<lambda>a. (a, [])) (filter (\<lambda>a. \<not> node_exists z a) (ancestors p @ [p]))"
  unfolding ensure_path_def by (rule nodes_fold_ensure) (rule ancestors_distinct)

lemma map_of_const_map:
  "map_of (map (\<lambda>a. (a, c)) xs) q = (if q \<in> set xs then Some c else None)"
  by (induction xs) auto

lemma lookup_ensure_path:
  "lookup (ensure_path p z) q =
     (case lookup z q of
        Some w \<Rightarrow> Some w
      | None \<Rightarrow> if q \<noteq> [] \<and> (q = p \<or> q \<in> set (ancestors p)) then Some [] else None)"
proof -
  show ?thesis
    by (auto simp: lookup_def nodes_ensure_path map_add_def node_exists_def map_of_const_map
             split: option.splits)
qed

lemma lookup_ensure_path_other:
  "\<not> prefix q p \<Longrightarrow> lookup (ensure_path p z) q = lookup z q"
  using ancestors_prefix [of q p]
  by (auto simp: lookup_ensure_path strict_prefix_def split: option.splits)

lemma lookup_ensure_path_Some:
  "lookup z q = Some v \<Longrightarrow> lookup (ensure_path p z) q = Some v"
  by (simp add: lookup_ensure_path)

lemma node_exists_ensure_path_other:
  "\<not> prefix q p \<Longrightarrow> node_exists (ensure_path p z) q = node_exists z q"
  by (simp add: node_exists_def lookup_ensure_path_other)

lemma node_exists_ensure_path_mono:
  "node_exists z q \<Longrightarrow> node_exists (ensure_path p z) q"
  by (auto simp: node_exists_def lookup_ensure_path split: option.splits)

lemma not_is_child_of_prefix: "prefix a p \<Longrightarrow> \<not> prefix (q @ ''/'') p \<Longrightarrow> \<not> is_child q a"
  by (auto simp: is_child_def dest: prefix_order.trans)

lemma children_of_ensure_path:
  "\<not> prefix (q @ ''/'') p \<Longrightarrow> children_of (ensure_path p z) q = children_of z q"
proof -
  assume np: "\<not> prefix (q @ ''/'') p"
  have "filter (is_child q) (filter (\<lambda>a. \<not> node_exists z a) (ancestors p @ [p])) = []"
    using np ancestors_prefix [of _ p]
    by (auto simp: filter_empty_conv strict_prefix_def is_child_def dest: prefix_order.trans)
  then show ?thesis
    by (simp add: children_of_def nodes_ensure_path comp_def)
qed

lemma children_of_add_node:
  "children_of (add_node p v e z) q
     = children_of z q @ (if is_child q p then [drop (Suc (length q)) p] else [])"
  by (simp add: children_of_def add_node_def)

lemma node_exists_add_node:
  "node_exists (add_node p v e z) q = (node_exists z q \<or> q = p)"
  by (auto simp: node_exists_def lookup_add_node split: option.splits)

lemma parent_of_append: "CHR ''/'' \<notin> set c \<Longrightarrow> parent_of (x @ CHR ''/'' # c) = x"
proof -
  assume "CHR ''/'' \<notin> set c"
  then have "dropWhile (\<lambda>a. a \<noteq> CHR ''/'') (rev c @ CHR ''/'' # rev x) = CHR ''/'' # rev x"
    by (auto simp: dropWhile_append3)
  then show ?thesis by (simp add: parent_of_def)
qed

subsection \<open>Requests to a service with no fault scheduled\<close>

lemma run_with_timeout_numeral:
  "run_with_timeout t (numeral k) f a z =
     (case f a z of
        (Inr retval, z1) \<Rightarrow> (Inr retval, z1)
      | (Inl e, z1) \<Rightarrow>
          (case e of
             ZKTimeoutException \<Rightarrow> (Inl (ZKTransactionException CallTimedOut), z1)
           | NoNodeError \<Rightarrow> (Inl NoNodeError, z1)
           | NodeExistsError \<Rightarrow> (Inl NodeExistsError, z1)
           | ConnectionLoss \<Rightarrow>
               run_with_timeout t (pred_numeral k) f a (reestablish_connection z1)
           | ConnectionClosedError \<Rightarrow>
               run_with_timeout t (pred_numeral k) f a (reestablish_connection z1)
           | OperationTimeoutError \<Rightarrow>
               run_with_timeout t (pred_numeral k) f [] (reestablish_connection z1)
           | SessionExpiredError \<Rightarrow>
               run_with_timeout t (pred_numeral k) f a (reestablish_connection z1)
           | DataInconsistency \<Rightarrow> (Inl DataInconsistency, z1)
           | BadArgumentsError \<Rightarrow> (Inl BadArgumentsError, z1)
           | SystemZookeeperError \<Rightarrow> (Inl SystemZookeeperError, z1)
           | _ \<Rightarrow> run_with_timeout t (pred_numeral k) f a z1))"
  by (subst numeral_eq_Suc) (rule run_with_timeout.simps)

lemmas retries_Suc = DEFAULT_NUM_RETRIES_def run_with_timeout_numeral

lemma rwt_exists_quiet:
  "faults z = [] \<Longrightarrow>
   run_with_timeout t DEFAULT_NUM_RETRIES handle_exists [AStr p] z
     = (Inr (if node_exists z p then VStat else VNone), z\<lparr>trace := trace z @ [(MExists, p)]\<rparr>)"
  by (simp add: retries_Suc handle_exists_def sync_call_def zk_exists_def Let_def)

lemma handle_exists_quiet:
  "faults z = [] \<Longrightarrow>
   handle_exists [AStr p] z
     = (Inr (if node_exists z p then VStat else VNone), z\<lparr>trace := trace z @ [(MExists, p)]\<rparr>)"
  by (simp add: handle_exists_def sync_call_def zk_exists_def Let_def)

lemma rwt_get_quiet:
  "faults z = [] \<Longrightarrow>
   run_with_timeout t DEFAULT_NUM_RETRIES handle_get [AStr p] z
     = ((case lookup z p of None \<Rightarrow> Inl NoNodeError | Some v \<Rightarrow> Inr (VData v)),
        z\<lparr>trace := trace z @ [(MGet, p)]\<rparr>)"
  by (simp add: retries_Suc handle_get_def sync_call_def zk_get_def Let_def split: option.splits)

lemma handle_get_quiet:
  "faults z = [] \<Longrightarrow>
   handle_get [AStr p] z
     = ((case lookup z p of None \<Rightarrow> Inl NoNodeError | Some v \<Rightarrow> Inr (VData v)),
        z\<lparr>trace := trace z @ [(MGet, p)]\<rparr>)"
  by (simp add: handle_get_def sync_call_def zk_get_def Let_def split: option.splits)

lemma rwt_get_children_quiet:
  "faults z = [] \<Longrightarrow>
   run_with_timeout t DEFAULT_NUM_RETRIES handle_get_children [AStr p] z
     = ((if node_exists z p then Inr (VList (children_of z p)) else Inl NoNodeError),
        z\<lparr>trace := trace z @ [(MGetChildren, p)]\<rparr>)"
  by (simp add: retries_Suc handle_get_children_def sync_call_def zk_get_children_def Let_def)

lemma handle_get_children_quiet:
  "faults z = [] \<Longrightarrow>
   handle_get_children [AStr p] z
     = ((if node_exists z p then Inr (VList (children_of z p)) else Inl NoNodeError),
        z\<lparr>trace := trace z @ [(MGetChildren, p)]\<rparr>)"
  by (simp add: handle_get_children_def sync_call_def zk_get_children_def Let_def)

lemma handle_create_quiet:
  "faults z = [] \<Longrightarrow>
   handle_create [AStr p, AStr v, ANone, ABool e, ABool s, ABool m] z
     = zk_create p v e s m (z\<lparr>trace := trace z @ [(MCreate, p)]\<rparr>)"
  by (simp add: handle_create_def sync_call_def Let_def)

lemma zk_create_cases:
  "fst (zk_create p v e s m z) = Inl NoNodeError \<or> fst (zk_create p v e s m z) = Inl NodeExistsError
   \<or> (\<exists>r. fst (zk_create p v e s m z) = Inr r)"
  by (simp add: zk_create_def Let_def)

lemma rwt_create_quiet:
  "faults z = [] \<Longrightarrow>
   run_with_timeout t DEFAULT_NUM_RETRIES handle_create
       [AStr p, AStr v, ANone, ABool e, ABool s, ABool m] z
     = zk_create p v e s m (z\<lparr>trace := trace z @ [(MCreate, p)]\<rparr>)"
  using zk_create_cases [of p v e s m "z\<lparr>trace := trace z @ [(MCreate, p)]\<rparr>"]
  by (cases "zk_create p v e s m (z\<lparr>trace := trace z @ [(MCreate, p)]\<rparr>)")
     (auto simp: retries_Suc handle_create_quiet)

lemma length_parent_of: "p \<noteq> [] \<Longrightarrow> length (parent_of p) < length p"
proof -
  assume ne: "p \<noteq> []"
  have le: "length (dropWhile (\<lambda>c. c \<noteq> CHR ''/'') (rev p)) \<le> length (rev p)"
    by (rule length_dropWhile_le)
  have "length (parent_of p) = length (dropWhile (\<lambda>c. c \<noteq> CHR ''/'') (rev p)) - 1"
    by (simp add: parent_of_def)
  with le ne show ?thesis by (cases p) simp_all
qed

lemma not_prefix_parent: "p \<noteq> [] \<Longrightarrow> \<not> prefix p (parent_of p)"
  using length_parent_of [of p] by (auto dest: prefix_length_le)

lemma zk_create_mk_fresh:
  "\<not> node_exists z p \<Longrightarrow>
   zk_create p v e False True z = (Inr (VStr p), add_node p v e (ensure_path (parent_of p) z))"
proof -
  assume fresh: "\<not> node_exists z p"
  then have "p \<noteq> []" by (auto simp: node_exists_def)
  then have "\<not> node_exists (ensure_path (parent_of p) z) p"
    using fresh by (simp add: node_exists_ensure_path_other not_prefix_parent)
  then show ?thesis by (simp add: zk_create_def Let_def)
qed

lemma zk_create_mk_exists:
  "node_exists z p \<Longrightarrow>
   zk_create p v e False True z = (Inl NodeExistsError, ensure_path (parent_of p) z)"
  by (simp add: zk_create_def Let_def node_exists_ensure_path_mono)

lemma zk_create_faults [simp]: "faults (snd (zk_create p v e s m z)) = faults z"
  by (simp add: zk_create_def Let_def)

lemma path_simps:
  "get_transaction_prefix_path app = get_app_root_path app @ ''/txids''"
  "get_blacklist_root_path app = get_app_root_path app @ ''/txids/blacklist''"
  "get_transaction_path app i = get_app_root_path app @ ''/txids/tx'' @ fmt_010d i"
  "get_transaction_lock_list_path app i
     = get_app_root_path app @ ''/txids/tx'' @ fmt_010d i @ ''/lockpath''"
  "get_xg_path app i = get_app_root_path app @ ''/txids/tx'' @ fmt_010d i @ ''/xg''"
  "get_lock_root_path app k = get_app_root_path app @ ''/locks/'' @ quote_plus k"
  "get_valid_transaction_root_path app = get_app_root_path app @ ''/txids/validlist''"
  "get_valid_transaction_path app k
     = get_app_root_path app @ ''/txids/validlist/'' @ quote_plus k"
  "get_txn_path_before_getting_id app = get_app_root_path app @ ''/txids/tx''"
  by (simp_all add: get_transaction_prefix_path_def get_blacklist_root_path_def
      get_transaction_path_def get_transaction_lock_list_path_def get_xg_path_def
      get_lock_root_path_def get_valid_transaction_root_path_def get_valid_transaction_path_def
      get_txn_path_before_getting_id_def
      PATH_SEPARATOR_def APP_TX_PATH_def TX_BLACKLIST_PATH_def APP_TX_PREFIX_def TX_LOCK_PATH_def
      XG_PREFIX_def APP_LOCK_PATH_def TX_VALIDLIST_PATH_def)

lemma parent_of_blacklist_root:
  "parent_of (get_blacklist_root_path app) = get_transaction_prefix_path app"
  using parent_of_append [of "''blacklist''" "get_app_root_path app @ ''/txids''"]
  by (simp add: path_simps)

lemma ensure_path_trace:
  "ensure_path p (z\<lparr>trace := t\<rparr>) = (ensure_path p z)\<lparr>trace := t\<rparr>"
proof -
  have "fold (\<lambda>a z1. if node_exists z1 a then z1 else add_node a [] False z1) as (z\<lparr>trace := t\<rparr>)
        = (fold (\<lambda>a z1. if node_exists z1 a then z1 else add_node a [] False z1) as z)\<lparr>trace := t\<rparr>"
    for as
    by (induction as arbitrary: z) simp_all
  then show ?thesis by (simp add: ensure_path_def)
qed

lemma with_blacklist_root_trace:
  "with_blacklist_root app (z\<lparr>trace := t\<rparr>) = (with_blacklist_root app z)\<lparr>trace := t\<rparr>"
  by (simp add: with_blacklist_root_def ensure_path_trace)

lemma with_blacklist_root_fields [simp]:
  "faults (with_blacklist_root app z) = faults z"
  "clock (with_blacklist_root app z) = clock z"
  "trace (with_blacklist_root app z) = trace z"
  "logged (with_blacklist_root app z) = logged z"
  "reconnects (with_blacklist_root app z) = reconnects z"
  by (simp_all add: with_blacklist_root_def)

lemma blacklist_root_exists [simp]:
  "node_exists (with_blacklist_root app z) (get_blacklist_root_path app)"
  by (simp add: with_blacklist_root_def node_exists_add_node)

lemma lookup_with_blacklist_root_Some:
  "lookup z q = Some v \<Longrightarrow> lookup (with_blacklist_root app z) q = Some v"
  by (simp add: with_blacklist_root_def lookup_add_node lookup_ensure_path_Some)

lemma prefix_txids_blacklist:
  "prefix q (get_transaction_prefix_path app) \<Longrightarrow> prefix q (get_blacklist_root_path app)"
proof -
  assume pre: "prefix q (get_transaction_prefix_path app)"
  have e: "get_blacklist_root_path app = get_transaction_prefix_path app @ ''/blacklist''"
    by (simp add: path_simps)
  show ?thesis unfolding e using pre by (rule prefix_prefix)
qed

lemma lookup_with_blacklist_root_other:
  "\<not> prefix q (get_blacklist_root_path app) \<Longrightarrow>
   lookup (with_blacklist_root app z) q = lookup z q"
proof -
  assume np: "\<not> prefix q (get_blacklist_root_path app)"
  then have "\<not> prefix q (get_transaction_prefix_path app)"
    using prefix_txids_blacklist by blast
  then have "lookup (ensure_path (get_transaction_prefix_path app) z) q = lookup z q"
    by (rule lookup_ensure_path_other)
  moreover have "q \<noteq> get_blacklist_root_path app" using np by auto
  ultimately show ?thesis
    by (simp add: with_blacklist_root_def lookup_add_node split: option.splits)
qed

lemma node_exists_with_blacklist_root_mono:
  "node_exists z q \<Longrightarrow> node_exists (with_blacklist_root app z) q"
  by (auto simp: node_exists_def dest: lookup_with_blacklist_root_Some)

lemma node_exists_with_blacklist_root_other:
  "\<not> prefix q (get_blacklist_root_path app) \<Longrightarrow>
   node_exists (with_blacklist_root app z) q = node_exists z q"
  by (simp add: node_exists_def lookup_with_blacklist_root_other)

lemma children_of_with_blacklist_root:
  "\<not> prefix (q @ ''/'') (get_blacklist_root_path app) \<Longrightarrow>
   children_of (with_blacklist_root app z) q = children_of z q"
proof -
  assume np: "\<not> prefix (q @ ''/'') (get_blacklist_root_path app)"
  then have "\<not> prefix (q @ ''/'') (get_transaction_prefix_path app)"
    using prefix_txids_blacklist by blast
  then have "children_of (ensure_path (get_transaction_prefix_path app) z) q = children_of z q"
    by (rule children_of_ensure_path)
  moreover have "\<not> is_child q (get_blacklist_root_path app)"
    using np by (simp add: is_child_def)
  ultimately show ?thesis
    by (simp add: with_blacklist_root_def children_of_add_node)
qed

lemma blacklisted_with_blacklist_root [simp]:
  "blacklisted (with_blacklist_root app z) app txid = blacklisted z app txid"
  by (simp add: blacklisted_def children_of_with_blacklist_root)

lemma blacklisted_irrelevant [simp]:
  "blacklisted (z\<lparr>trace := t\<rparr>) = blacklisted z"
  by (simp add: blacklisted_def fun_eq_iff)

lemma with_blacklist_root_idem [simp]:
  "with_blacklist_root app (with_blacklist_root app z) = with_blacklist_root app z"
  by (simp add: with_blacklist_root_def [of app "with_blacklist_root app z"])

lemma blacklist_requests_again [simp]:
  "blacklist_requests app (with_blacklist_root app z)
     = [(MExists, get_blacklist_root_path app), (MGetChildren, get_blacklist_root_path app)]"
  by (simp add: blacklist_requests_def)

lemma blacklist_requests_irrelevant [simp]:
  "blacklist_requests app (z\<lparr>trace := t\<rparr>) = blacklist_requests app z"
  by (simp add: blacklist_requests_def)

lemma is_blacklisted_quiet:
  "faults z = [] \<Longrightarrow>
   is_blacklisted app txid z
     = (Inr (blacklisted z app txid),
        (with_blacklist_root app z)\<lparr>trace := trace z @ blacklist_requests app z\<rparr>)"
proof (cases "node_exists z (get_blacklist_root_path app)")
  case True
  assume "faults z = []"
  with True show ?thesis
    by (simp add: is_blacklisted_def andthen_def try_except_def ret_def raise_def as_list_def
        truthy_def rwt_exists_quiet rwt_get_children_quiet blacklisted_def
        with_blacklist_root_def blacklist_requests_def Let_def)
next
  case False
  assume q: "faults z = []"
  have cr: "zk_create (get_blacklist_root_path app) DEFAULT_VAL False False True
              (z\<lparr>trace := trace z @ [(MExists, get_blacklist_root_path app),
                                       (MCreate, get_blacklist_root_path app)]\<rparr>)
            = (Inr (VStr (get_blacklist_root_path app)),
               (with_blacklist_root app z)\<lparr>trace := trace z @
                  [(MExists, get_blacklist_root_path app), (MCreate, get_blacklist_root_path app)]\<rparr>)"
    using False
    by (simp add: zk_create_mk_fresh parent_of_blacklist_root with_blacklist_root_def
        ensure_path_trace)
  have ch: "children_of (with_blacklist_root app z) (get_blacklist_root_path app)
             = children_of z (get_blacklist_root_path app)"
    by (simp add: children_of_with_blacklist_root)
  show ?thesis
    using False q
    by (simp add: is_blacklisted_def andthen_def try_except_def ret_def raise_def as_list_def
        truthy_def rwt_exists_quiet rwt_get_children_quiet handle_create_quiet cr ch
        blacklisted_def blacklist_requests_def Let_def)
qed

lemmas act_defs = andthen_def try_except_def ret_def raise_def item0_def as_list_def truthy_def
  Let_def

lemma not_prefix_tx_blacklist [simp]:
  "\<not> prefix (get_transaction_path app txid) (get_blacklist_root_path app)"
  "\<not> prefix (get_transaction_lock_list_path app txid) (get_blacklist_root_path app)"
  "\<not> prefix (get_xg_path app txid) (get_blacklist_root_path app)"
  "\<not> prefix (get_transaction_path app txid @ ''/'') (get_blacklist_root_path app)"
  "\<not> prefix (get_lock_root_path app k) (get_blacklist_root_path app)"
  by (simp_all add: path_simps)

lemma lock_list_path_nonempty [simp]:
  "get_transaction_lock_list_path app txid \<noteq> []"
  "get_transaction_path app txid \<noteq> []"
  "get_xg_path app txid \<noteq> []"
  "get_lock_root_path app k \<noteq> []"
  by (simp_all add: path_simps)

lemma check_transaction_quiet:
  "faults z = [] \<Longrightarrow>
   check_transaction app txid z
     = (if blacklisted z app txid
        then (Inl (ZKTransactionException TransactionTimedOut),
              (with_blacklist_root app z)\<lparr>trace := trace z @ blacklist_requests app z\<rparr>)
        else (if node_exists z (get_transaction_path app txid) then Inr True
              else Inl (ZKTransactionException TransactionNotValid),
              (with_blacklist_root app z)\<lparr>trace := trace z @ blacklist_requests app z
                 @ [(MExists, get_transaction_path app txid)]\<rparr>))"
  by (simp add: check_transaction_def act_defs is_blacklisted_quiet rwt_exists_quiet
      node_exists_with_blacklist_root_other)

lemma is_in_transaction_quiet:
  "faults z = [] \<Longrightarrow>
   is_in_transaction app txid z
     = (if blacklisted z app txid
        then (Inl (ZKTransactionException TransactionTimedOut),
              (with_blacklist_root app z)\<lparr>trace := trace z @ blacklist_requests app z\<rparr>)
        else (Inr (lookup z (get_transaction_lock_list_path app txid) \<noteq> None),
              (with_blacklist_root app z)\<lparr>trace := trace z @ blacklist_requests app z
                 @ [(MExists, get_transaction_lock_list_path app txid)]\<rparr>))"
  by (simp add: is_in_transaction_def act_defs is_blacklisted_quiet rwt_exists_quiet
      node_exists_with_blacklist_root_other)
     (simp add: node_exists_def)

lemma is_xg_quiet:
  "faults z = [] \<Longrightarrow>
   is_xg app txid z
     = (Inr (if node_exists z (get_xg_path app txid) then VStat else VNone),
        z\<lparr>trace := trace z @ [(MExists, get_xg_path app txid)]\<rparr>)"
  by (simp add: is_xg_def act_defs handle_exists_quiet)

lemma release_lock_no_lockpath:
  assumes "faults z = []"
    and "node_exists z (get_transaction_path app txid)"
    and "\<not> blacklisted z app txid"
    and "lookup z (get_transaction_lock_list_path app txid) = None"
  shows "release_lock app txid z
     = (Inr True,
        (with_blacklist_root app z)\<lparr>trace := trace z @ blacklist_requests app z
           @ [(MExists, get_transaction_path app txid),
              (MGet, get_transaction_lock_list_path app txid),
              (MExists, get_blacklist_root_path app),
              (MGetChildren, get_blacklist_root_path app)]\<rparr>)"
  using assms
  by (simp add: release_lock_def act_defs check_transaction_quiet rwt_get_quiet
      is_blacklisted_quiet lookup_with_blacklist_root_other with_blacklist_root_trace)

lemma acquire_lock_same_root:
  assumes "faults z = []"
    and "\<not> blacklisted z app txid"
    and "lookup z (get_transaction_lock_list_path app txid) = Some v"
    and "get_lock_root_path app k \<in> set (py_split v LOCK_LIST_SEPARATOR)"
  shows "acquire_lock app txid k z
     = (Inr True,
        (with_blacklist_root app z)\<lparr>trace := trace z @ blacklist_requests app z
           @ [(MExists, get_transaction_lock_list_path app txid),
              (MGet, get_transaction_lock_list_path app txid)]\<rparr>)"
  using assms
  by (simp add: acquire_lock_def act_defs is_in_transaction_quiet rwt_get_quiet
      lookup_with_blacklist_root_Some)

lemma acquire_lock_other_root_non_xg:
  assumes "faults z = []"
    and "\<not> blacklisted z app txid"
    and "lookup z (get_transaction_lock_list_path app txid) = Some v"
    and "\<not> node_exists z (get_xg_path app txid)"
    and "get_lock_root_path app k \<notin> set (py_split v LOCK_LIST_SEPARATOR)"
  shows "acquire_lock app txid k z
     = (Inl (ZKTransactionException DifferentRootEntity),
        (with_blacklist_root app z)\<lparr>trace := trace z @ blacklist_requests app z
           @ [(MExists, get_transaction_lock_list_path app txid),
              (MGet, get_transaction_lock_list_path app txid),
              (MExists, get_xg_path app txid)]\<rparr>)"
  using assms
  by (simp add: acquire_lock_def act_defs is_in_transaction_quiet rwt_get_quiet is_xg_quiet
      lookup_with_blacklist_root_Some node_exists_with_blacklist_root_other)

lemma release_lock_split:
  "release_lock app txid = andthen (check_transaction app txid) (\<lambda>_. release_rest app txid)"
  by (simp add: release_lock_def release_rest_def)

lemma quiet_raises_mono: "quiet_raises E m \<Longrightarrow> E \<subseteq> E' \<Longrightarrow> quiet_raises E' m"
  by (auto simp: quiet_raises_def)

lemma quiet_raises_ret [intro!]: "quiet_raises E (ret v)"
  by (simp add: quiet_raises_def ret_def)

lemma quiet_raises_raise [intro]: "e \<in> E \<Longrightarrow> quiet_raises E (raise e)"
  by (simp add: quiet_raises_def raise_def)

lemma quiet_raises_andthen [intro!]:
  "quiet_raises E m \<Longrightarrow> (\<And>v. quiet_raises E (f v)) \<Longrightarrow> quiet_raises E (andthen m f)"
  unfolding quiet_raises_def andthen_def
  by (auto split: prod.splits sum.splits)

lemma quiet_raises_try_except:
  "quiet_raises E1 m \<Longrightarrow> (\<And>e. e \<in> E1 \<Longrightarrow> quiet_raises E (h e)) \<Longrightarrow>
   quiet_raises E (try_except m h)"
  unfolding quiet_raises_def try_except_def
  by (auto split: prod.splits sum.splits)

lemma quiet_raises_for_each [intro!]:
  "(\<And>x. quiet_raises E (body x)) \<Longrightarrow> quiet_raises E (for_each xs body)"
  by (induction xs) auto

lemma quiet_raises_if [intro!]:
  "quiet_raises E a \<Longrightarrow> quiet_raises E b \<Longrightarrow> quiet_raises E (if c then a else b)"
  by simp

lemma zk_prims_quiet:
  "faults (snd (zk_get p z)) = faults z"
  "faults (snd (zk_set p v z)) = faults z"
  "faults (snd (zk_delete p z)) = faults z"
  "faults (snd (zk_exists p z)) = faults z"
  "faults (snd (zk_get_children p z)) = faults z"
  by (simp_all add: zk_get_def zk_set_def zk_delete_def zk_exists_def zk_get_children_def
      del_node_def split: option.splits)

lemma zk_prims_raise:
  "fst (zk_get p z) = Inl e \<Longrightarrow> e \<in> service_errors"
  "fst (zk_set p v z) = Inl e \<Longrightarrow> e \<in> service_errors"
  "fst (zk_delete p z) = Inl e \<Longrightarrow> e \<in> service_errors"
  "fst (zk_exists p z) = Inl e \<Longrightarrow> e \<in> service_errors"
  "fst (zk_get_children p z) = Inl e \<Longrightarrow> e \<in> service_errors"
  "fst (zk_create p v ep sq mk z) = Inl e \<Longrightarrow> e \<in> service_errors"
  by (auto simp: zk_get_def zk_set_def zk_delete_def zk_exists_def zk_get_children_def
      zk_create_def Let_def service_errors_def split: option.splits if_splits)

lemma sync_call_quiet:
  "(\<And>z. faults (snd (op z)) = faults z) \<Longrightarrow> (\<And>z e. fst (op z) = Inl e \<Longrightarrow> e \<in> service_errors)
   \<Longrightarrow> quiet_raises service_errors (sync_call m p op)"
  by (simp add: quiet_raises_def sync_call_def Let_def)

lemma async_call_quiet:
  "(\<And>z. faults (snd (op z)) = faults z) \<Longrightarrow> quiet_raises service_errors (async_call m p op)"
  by (simp add: quiet_raises_def async_call_def)

lemma quiet_raises_TypeError: "quiet_raises service_errors (\<lambda>z. (Inl TypeError, z))"
  by (simp add: quiet_raises_def service_errors_def)

lemma TypeError_service [simp]: "TypeError \<in> service_errors"
  by (simp add: service_errors_def)

lemma handle_quiet:
  "quiet_raises service_errors (handle_get args)"
  "quiet_raises service_errors (handle_exists args)"
  "quiet_raises service_errors (handle_get_children args)"
  "quiet_raises service_errors (handle_delete args)"
  "quiet_raises service_errors (handle_create args)"
  "quiet_raises service_errors (handle_delete_async args)"
  "quiet_raises service_errors (handle_set_async args)"
  "quiet_raises service_errors (handle_create_async args)"
  by (auto simp: quiet_raises_def handle_get_def handle_exists_def handle_get_children_def
      handle_delete_def handle_create_def handle_delete_async_def handle_set_async_def
      handle_create_async_def sync_call_def async_call_def Let_def zk_prims_quiet
      dest: zk_prims_raise split: list.splits arg.splits)

lemma run_with_timeout_quiet:
  "(\<And>a. quiet_raises service_errors (f a)) \<Longrightarrow>
   quiet_raises wrapped_errors (run_with_timeout t n f args)"
proof -
  assume f: "\<And>a. quiet_raises service_errors (f a)"
  have "faults z = [] \<Longrightarrow>
        faults (snd (run_with_timeout t n f args z)) = [] \<and>
        (\<forall>e. fst (run_with_timeout t n f args z) = Inl e \<longrightarrow> e \<in> wrapped_errors)" for z
  proof (induction n arbitrary: z)
    case 0
    then show ?case by (simp add: wrapped_errors_def)
  next
    case (Suc n)
    obtain r z1 where r: "f args z = (r, z1)" by (cases "f args z")
    have q1: "faults z1 = []"
      using f [of args] Suc.prems r by (auto simp: quiet_raises_def)
    show ?case
    proof (cases r)
      case (Inr v)
      then show ?thesis using r q1 by simp
    next
      case (Inl e)
      then have "e \<in> service_errors"
        using f [of args] Suc.prems r by (auto simp: quiet_raises_def)
      then show ?thesis
        using r Inl q1 Suc.IH [of z1]
        by (auto simp: service_errors_def wrapped_errors_def)
    qed
  qed
  then show ?thesis by (simp add: quiet_raises_def)
qed

lemma is_blacklisted_quiet_raises: "quiet_raises E (is_blacklisted app txid)"
  by (simp add: quiet_raises_def is_blacklisted_quiet)

lemma is_xg_quiet_raises: "quiet_raises E (is_xg app txid)"
  by (simp add: quiet_raises_def is_xg_quiet)

lemma item0_quiet_raises: "TypeError \<in> E \<Longrightarrow> quiet_raises E (item0 r)"
  by (auto simp: item0_def split: val.splits)

lemma as_list_quiet_raises: "TypeError \<in> E \<Longrightarrow> quiet_raises E (as_list r)"
  by (auto simp: as_list_def split: val.splits)

lemma rwt_release_errors:
  "(\<And>a. quiet_raises service_errors (f a)) \<Longrightarrow>
   quiet_raises release_errors (run_with_timeout t n f args)"
  by (rule quiet_raises_mono [OF run_with_timeout_quiet])
     (auto simp: wrapped_errors_def release_errors_def)

lemma release_rest_quiet_raises: "quiet_raises release_errors (release_rest app txid)"
  unfolding release_rest_def Let_def
  by (intro quiet_raises_andthen quiet_raises_try_except [where ?E1.0 = release_errors]
      quiet_raises_for_each quiet_raises_if quiet_raises_ret rwt_release_errors handle_quiet
      item0_quiet_raises as_list_quiet_raises is_blacklisted_quiet_raises is_xg_quiet_raises
      quiet_raises_raise)
     (auto simp: release_errors_def)

subsection \<open>Requests to a service that answers the next ones\<close>

lemma served_fields [simp]:
  "faults (served r z) = drop (length r) (faults z)"
  "trace (served r z) = trace z @ r"
  "nodes (served r z) = nodes z"
  "lookup (served r z) = lookup z"
  "node_exists (served r z) = node_exists z"
  "children_of (served r z) = children_of z"
  by (simp_all add: served_def)

lemma served_served [simp]: "served r2 (served r1 z) = served (r1 @ r2) z"
  by (simp add: served_def add.commute)

lemma ensure_path_faults:
  "ensure_path p (z\<lparr>faults := f\<rparr>) = (ensure_path p z)\<lparr>faults := f\<rparr>"
proof -
  have "fold (\<lambda>a z1. if node_exists z1 a then z1 else add_node a [] False z1) as (z\<lparr>faults := f\<rparr>)
        = (fold (\<lambda>a z1. if node_exists z1 a then z1 else add_node a [] False z1) as z)\<lparr>faults := f\<rparr>"
    for as
    by (induction as arbitrary: z) simp_all
  then show ?thesis by (simp add: ensure_path_def)
qed

lemma ensure_path_served: "ensure_path p (served r z) = served r (ensure_path p z)"
  by (simp add: served_def ensure_path_faults ensure_path_trace)

lemma add_node_served: "add_node p v e (served r z) = served r (add_node p v e z)"
  by (simp add: served_def)

lemma with_blacklist_root_served:
  "with_blacklist_root app (served r z) = served r (with_blacklist_root app z)"
  by (simp add: with_blacklist_root_def ensure_path_served add_node_served)

lemma blacklisted_served [simp]: "blacklisted (served r z) = blacklisted z"
  by (simp add: blacklisted_def fun_eq_iff)

lemma blacklist_requests_served [simp]:
  "blacklist_requests app (served r z) = blacklist_requests app z"
  by (simp add: blacklist_requests_def)

lemma answered_fields [simp]:
  "answered n (z\<lparr>trace := t\<rparr>) = answered n z"
  "answered n (with_blacklist_root app z) = answered n z"
  "answered n (ensure_path p z) = answered n z"
  "answered n (add_node p v e z) = answered n z"
  by (simp_all add: answered_def)

lemma answered_mono: "answered m z \<Longrightarrow> n \<le> m \<Longrightarrow> answered n z"
proof -
  assume a: "answered m z" and le: "n \<le> m"
  have "set (take n (faults z)) \<subseteq> set (take m (faults z))"
    using le by (rule set_take_subset_set_take)
  with a show ?thesis by (auto simp: answered_def list_all_iff)
qed

lemma answered_served: "answered (length r + n) z \<Longrightarrow> answered n (served r z)"
proof -
  assume a: "answered (length r + n) z"
  have "take n (drop (length r) (faults z)) = drop (length r) (take (length r + n) (faults z))"
    by (simp add: drop_take)
  then have "set (take n (drop (length r) (faults z))) \<subseteq> set (take (length r + n) (faults z))"
    by (simp add: set_drop_subset)
  with a show ?thesis by (auto simp: answered_def list_all_iff)
qed

lemma answered_served_le: "answered m z \<Longrightarrow> length r + n \<le> m \<Longrightarrow> answered n (served r z)"
  by (rule answered_served) (rule answered_mono)

lemma quiet_answered: "faults z = [] \<Longrightarrow> answered n z"
  by (simp add: answered_def)

lemma faults_nil_update: "faults z = [] \<Longrightarrow> z\<lparr>trace := t, faults := []\<rparr> = z\<lparr>trace := t\<rparr>"
  by (cases z) simp

lemma sync_call_answered:
  "answered (Suc 0) z \<Longrightarrow> sync_call m p op z = op (served [(m, p)] z)"
  by (cases "faults z")
     (auto simp: answered_def sync_call_def served_def Let_def faults_nil_update)

lemma rwt_exists_answered:
  "answered (Suc 0) z \<Longrightarrow>
   run_with_timeout t DEFAULT_NUM_RETRIES handle_exists [AStr p] z
     = (Inr (if node_exists z p then VStat else VNone), served [(MExists, p)] z)"
  by (simp add: retries_Suc handle_exists_def sync_call_answered zk_exists_def)

lemma handle_exists_answered:
  "answered (Suc 0) z \<Longrightarrow>
   handle_exists [AStr p] z
     = (Inr (if node_exists z p then VStat else VNone), served [(MExists, p)] z)"
  by (simp add: handle_exists_def sync_call_answered zk_exists_def)

lemma rwt_get_answered:
  "answered (Suc 0) z \<Longrightarrow>
   run_with_timeout t DEFAULT_NUM_RETRIES handle_get [AStr p] z
     = ((case lookup z p of None \<Rightarrow> Inl NoNodeError | Some v \<Rightarrow> Inr (VData v)),
        served [(MGet, p)] z)"
  by (simp add: retries_Suc handle_get_def sync_call_answered zk_get_def split: option.splits)

lemma rwt_get_children_answered:
  "answered (Suc 0) z \<Longrightarrow>
   run_with_timeout t DEFAULT_NUM_RETRIES handle_get_children [AStr p] z
     = ((if node_exists z p then Inr (VList (children_of z p)) else Inl NoNodeError),
        served [(MGetChildren, p)] z)"
  by (simp add: retries_Suc handle_get_children_def sync_call_answered zk_get_children_def)

lemma handle_create_answered:
  "answered (Suc 0) z \<Longrightarrow>
   handle_create [AStr p, AStr v, ANone, ABool e, ABool s, ABool m] z
     = zk_create p v e s m (served [(MCreate, p)] z)"
  by (simp add: handle_create_def sync_call_answered)

lemma rwt_create_answered:
  "answered (Suc 0) z \<Longrightarrow>
   run_with_timeout t DEFAULT_NUM_RETRIES handle_create
       [AStr p, AStr v, ANone, ABool e, ABool s, ABool m] z
     = zk_create p v e s m (served [(MCreate, p)] z)"
  using zk_create_cases [of p v e s m "served [(MCreate, p)] z"]
  by (cases "zk_create p v e s m (served [(MCreate, p)] z)")
     (auto simp: retries_Suc handle_create_answered)

text \<open>The diagnostic read when the service answers it with \<open>NoNodeError\<close>.\<close>

lemma rwt_get_lost:
  "faults z = Some NoNodeError # fs \<Longrightarrow>
   run_with_timeout t DEFAULT_NUM_RETRIES handle_get [AStr p] z
     = (Inl NoNodeError, served [(MGet, p)] z)"
  by (simp add: retries_Suc handle_get_def sync_call_def served_def Let_def)

lemma fault_at_fields [simp]:
  "fault_at k (z\<lparr>trace := t\<rparr>) = fault_at k z"
  "fault_at k (with_blacklist_root app z) = fault_at k z"
  "fault_at k (ensure_path p z) = fault_at k z"
  by (simp_all add: fault_at_def)

lemma fault_at_served: "fault_at k (served r z) = fault_at (length r + k) z"
  by (auto simp: fault_at_def)

lemma fault_at_None_answered: "fault_at 0 z = None \<Longrightarrow> answered (Suc 0) z"
  by (cases "faults z") (auto simp: fault_at_def answered_def)

lemma fault_at_Some: "fault_at 0 z = Some e \<Longrightarrow> \<exists>fs. faults z = Some e # fs"
  by (cases "faults z") (auto simp: fault_at_def split: if_splits)

lemma is_blacklisted_answered:
  assumes "answered (length (blacklist_requests app z)) z"
  shows "is_blacklisted app txid z
     = (Inr (blacklisted z app txid),
        served (blacklist_requests app z) (with_blacklist_root app z))"
proof (cases "node_exists z (get_blacklist_root_path app)")
  case True
  have a1: "answered (Suc 0) z"
    using assms by (rule answered_mono) (simp add: blacklist_requests_def)
  have a2: "answered (Suc 0) (served [(MExists, get_blacklist_root_path app)] z)"
    using assms by (rule answered_served_le) (simp add: blacklist_requests_def True)
  show ?thesis
    using True a1 a2
    by (simp add: is_blacklisted_def andthen_def try_except_def ret_def raise_def as_list_def
        truthy_def rwt_exists_answered rwt_get_children_answered blacklisted_def
        with_blacklist_root_def blacklist_requests_def Let_def)
next
  case False
  have a1: "answered (Suc 0) z"
    using assms by (rule answered_mono) (simp add: blacklist_requests_def)
  have a2: "answered (Suc 0) (served [(MExists, get_blacklist_root_path app)] z)"
    using assms by (rule answered_served_le) (simp add: blacklist_requests_def False)
  have a3: "answered (Suc 0) (served [(MExists, get_blacklist_root_path app),
                                      (MCreate, get_blacklist_root_path app)]
                               (with_blacklist_root app z))"
  proof (rule answered_served_le)
    show "answered (length (blacklist_requests app z)) (with_blacklist_root app z)"
      using assms by simp
  qed (simp add: blacklist_requests_def False)
  have cr: "zk_create (get_blacklist_root_path app) DEFAULT_VAL False False True
              (served [(MExists, get_blacklist_root_path app),
                       (MCreate, get_blacklist_root_path app)] z)
            = (Inr (VStr (get_blacklist_root_path app)),
               served [(MExists, get_blacklist_root_path app),
                       (MCreate, get_blacklist_root_path app)] (with_blacklist_root app z))"
    using False
    by (simp add: zk_create_mk_fresh parent_of_blacklist_root with_blacklist_root_def
        ensure_path_served add_node_served)
  have ch: "children_of (with_blacklist_root app z) (get_blacklist_root_path app)
             = children_of z (get_blacklist_root_path app)"
    by (simp add: children_of_with_blacklist_root)
  show ?thesis
    using False a1 a2 a3
    by (simp add: is_blacklisted_def andthen_def try_except_def ret_def raise_def as_list_def
        truthy_def rwt_exists_answered rwt_get_children_answered handle_create_answered cr ch
        blacklisted_def blacklist_requests_def Let_def)
qed

lemma is_in_transaction_answered:
  assumes "answered (Suc (length (blacklist_requests app z))) z"
  shows "is_in_transaction app txid z
     = (if blacklisted z app txid
        then (Inl (ZKTransactionException TransactionTimedOut),
              served (blacklist_requests app z) (with_blacklist_root app z))
        else (Inr (lookup z (get_transaction_lock_list_path app txid) \<noteq> None),
              served (blacklist_requests app z @ [(MExists, get_transaction_lock_list_path app txid)])
                (with_blacklist_root app z)))"
proof -
  have a1: "answered (length (blacklist_requests app z)) z"
    using assms by (rule answered_mono) simp
  have a2: "answered (Suc 0) (served (blacklist_requests app z) (with_blacklist_root app z))"
  proof (rule answered_served_le)
    show "answered (Suc (length (blacklist_requests app z))) (with_blacklist_root app z)"
      using assms by simp
  qed simp
  show ?thesis
    using a2
    by (simp add: is_in_transaction_def act_defs is_blacklisted_answered [OF a1]
        rwt_exists_answered node_exists_with_blacklist_root_other)
       (simp add: node_exists_def)
qed

lemma is_xg_answered:
  "answered (Suc 0) z \<Longrightarrow>
   is_xg app txid z
     = (Inr (if node_exists z (get_xg_path app txid) then VStat else VNone),
        served [(MExists, get_xg_path app txid)] z)"
  by (simp add: is_xg_def act_defs handle_exists_answered)

text \<open>
  The lock root exists, the creation is answered, and the read of the owner is answered
  or finds the node gone: the call raises the already-held exception either way.
\<close>

lemma acquire_additional_lock_contended:
  assumes "answered (Suc 0) z"
    and "fault_at (Suc 0) z = None \<or> fault_at (Suc 0) z = Some NoNodeError"
    and "lookup z (get_lock_root_path app k) = Some owner"
  shows "acquire_additional_lock app txid k create z
     = (Inl (ZKTransactionException AlreadyHeld),
        served [(MCreate, get_lock_root_path app k), (MGet, get_lock_root_path app k)]
          (ensure_path (parent_of (get_lock_root_path app k)) z))"
proof -
  let ?p = "get_lock_root_path app k"
  let ?z1 = "served [(MCreate, ?p)] (ensure_path (parent_of ?p) z)"
  have cr: "run_with_timeout DEFAULT_ZK_TIMEOUT DEFAULT_NUM_RETRIES handle_create
              [AStr ?p, AStr (get_transaction_path app txid), ANone,
               ABool False, ABool False, ABool True] z
            = (Inl NodeExistsError, ?z1)"
    using assms(1,3)
    by (simp add: rwt_create_answered zk_create_mk_exists node_exists_def ensure_path_served)
  have lk: "lookup ?z1 ?p = Some owner"
    using assms(3) by (simp add: lookup_ensure_path_Some)
  have f1: "fault_at 0 ?z1 = fault_at (Suc 0) z"
    by (simp add: fault_at_served)
  have rd: "try_except
              (andthen (run_with_timeout DEFAULT_ZK_TIMEOUT DEFAULT_NUM_RETRIES handle_get [AStr ?p])
                 (\<lambda>r. andthen (item0 r) (\<lambda>tx_lockpath. ret ())))
              (\<lambda>e2. if e2 = NoNodeError then ret () else raise e2) ?z1
            = (Inr (), served [(MGet, ?p)] ?z1)"
    using assms(2)
  proof
    assume "fault_at (Suc 0) z = None"
    then have "answered (Suc 0) ?z1"
      using f1 by (intro fault_at_None_answered) simp
    then show ?thesis
      using lk by (simp add: act_defs rwt_get_answered del: served_served)
  next
    assume "fault_at (Suc 0) z = Some NoNodeError"
    then obtain fs where "faults ?z1 = Some NoNodeError # fs"
      using f1 fault_at_Some [of ?z1 NoNodeError] by auto
    then show ?thesis
      by (simp add: act_defs rwt_get_lost del: served_served served_fields)
  qed
  show ?thesis
    unfolding acquire_additional_lock_def Let_def
    by (simp add: andthen_def try_except_def [of "run_with_timeout _ _ handle_create _"] cr)
       (simp add: rd raise_def)
qed

subsection \<open>Reading a sequence number back from a node name\<close>

















lemma split_acc_nonempty: "split_acc sep acc s \<noteq> []"
  by (induction sep acc s rule: split_acc.induct) auto






subsection \<open>The creation counter of a node never goes back\<close>






lemma seq_of_del_node: "p \<noteq> X \<Longrightarrow> seq_of (del_node p z) X = seq_of z X"
  by (simp add: seq_of_def del_node_def map_of_filter_neq)


lemma reestablish_trace [simp]: "trace (reestablish_connection z) = trace z"
  by (simp add: reestablish_connection_def)




subsection \<open>The allocator under any schedule of faults\<close>

lemma prefix_path_nonempty [simp]: "get_transaction_prefix_path a \<noteq> []"
  by (simp add: path_simps)

















subsection \<open>Lock lists\<close>

lemma of_char_less_256: "(of_char c :: nat) < 256"
  by (cases c) (simp add: of_char_def horner_sum_eq_sum)

lemma hex_digit_mem: "d < 16 \<Longrightarrow> hex_digit d \<in> set ''0123456789ABCDEF''"
  unfolding hex_digit_def by (rule nth_mem) simp

lemma hex_digit_no_bang: "d < 16 \<Longrightarrow> hex_digit d \<noteq> CHR ''!''"
  using hex_digit_mem [of d] by auto

lemma quote_char_no_bang: "CHR ''!'' \<notin> set (quote_char c)"
proof -
  have "(of_char c :: nat) div 16 < 16" using of_char_less_256 [of c] by (simp add: less_mult_imp_div_less)
  moreover have "(of_char c :: nat) mod 16 < 16" by simp
  ultimately have "hex_digit ((of_char c :: nat) div 16) \<noteq> CHR ''!''"
    and "hex_digit ((of_char c :: nat) mod 16) \<noteq> CHR ''!''"
    by (simp_all add: hex_digit_no_bang)
  then show ?thesis
    by (auto simp: quote_char_def always_safe_def)
qed

lemma quote_plus_no_bang: "CHR ''!'' \<notin> set (quote_plus s)"
  by (induction s) (simp_all add: quote_plus_def quote_char_no_bang)

lemma app_root_no_bang: "CHR ''!'' \<notin> set (get_app_root_path app)"
  by (simp add: get_app_root_path_def APPS_PATH_def PATH_SEPARATOR_def quote_plus_no_bang)

lemma lock_root_no_bang: "CHR ''!'' \<notin> set (get_lock_root_path app k)"
  by (simp add: path_simps app_root_no_bang quote_plus_no_bang)

lemma split_acc_sep_free:
  "CHR ''!'' \<notin> set s \<Longrightarrow> split_acc LOCK_LIST_SEPARATOR acc s = [acc @ s]"
  by (induction s arbitrary: acc) (auto simp: LOCK_LIST_SEPARATOR_def)

lemma split_acc_piece:
  "CHR ''!'' \<notin> set x \<Longrightarrow>
   split_acc LOCK_LIST_SEPARATOR acc (x @ LOCK_LIST_SEPARATOR @ rest)
     = (acc @ x) # split_acc LOCK_LIST_SEPARATOR [] rest"
proof (induction x arbitrary: acc)
  case Nil
  show ?case by (simp add: LOCK_LIST_SEPARATOR_def)
next
  case (Cons c x)
  then have "\<not> prefix LOCK_LIST_SEPARATOR (c # x @ LOCK_LIST_SEPARATOR @ rest)"
    by (auto simp: LOCK_LIST_SEPARATOR_def)
  then show ?case using Cons by simp
qed

lemma py_split_join:
  "xs \<noteq> [] \<Longrightarrow> list_all (\<lambda>r. CHR ''!'' \<notin> set r) xs \<Longrightarrow>
   py_split (py_join LOCK_LIST_SEPARATOR xs) LOCK_LIST_SEPARATOR = xs"
proof (induction LOCK_LIST_SEPARATOR xs rule: py_join.induct)
  case 1
  then show ?case by simp
next
  case (2 x)
  then show ?case by (simp add: py_split_def split_acc_sep_free)
next
  case (3 x y ys)
  then show ?case by (simp add: py_split_def split_acc_piece)
qed

lemma py_join_snoc:
  "xs \<noteq> [] \<Longrightarrow> py_join sep (xs @ [y]) = py_join sep xs @ sep @ y"
  by (induction sep xs rule: py_join.induct) simp_all

lemma py_split_nonempty: "py_split s sep \<noteq> []"
  by (simp add: py_split_def split_acc_nonempty)

lemma py_split_extended:
  "list_all (\<lambda>r. CHR ''!'' \<notin> set r) (py_split v LOCK_LIST_SEPARATOR) \<Longrightarrow> CHR ''!'' \<notin> set y \<Longrightarrow>
   py_split (py_join LOCK_LIST_SEPARATOR (py_split v LOCK_LIST_SEPARATOR @ [y])) LOCK_LIST_SEPARATOR
     = py_split v LOCK_LIST_SEPARATOR @ [y]"
  by (rule py_split_join) simp_all

lemma rwt_async_passes:
  "fst (f a z) = Inr r \<Longrightarrow> run_with_timeout t DEFAULT_NUM_RETRIES f a z = f a z"
  by (cases "f a z") (simp add: retries_Suc)

lemma rwt_create_async:
  "run_with_timeout t DEFAULT_NUM_RETRIES handle_create_async
       [AStr p, AStr v, ANone, ABool e, ABool s] z
     = (Inr VAsync, snd (zk_create p v e s False (z\<lparr>trace := trace z @ [(MCreateAsync, p)]\<rparr>)))"
  by (simp add: retries_Suc handle_create_async_def async_call_def)

lemma rwt_set_async:
  "run_with_timeout t DEFAULT_NUM_RETRIES handle_set_async [AStr p, AStr v] z
     = (Inr VAsync, snd (zk_set p v (z\<lparr>trace := trace z @ [(MSetAsync, p)]\<rparr>)))"
  by (simp add: retries_Suc handle_set_async_def async_call_def)

lemma map_of_update_value:
  "map_of (map (\<lambda>(q, w). if q = p then (q, v) else (q, w)) xs) q
     = (if q = p \<and> map_of xs p \<noteq> None then Some v else map_of xs q)"
  by (induction xs) auto

lemma zk_set_fields [simp]:
  "faults (snd (zk_set p v z)) = faults z"
  "trace (snd (zk_set p v z)) = trace z"
  "ephemerals (snd (zk_set p v z)) = ephemerals z"
  by (simp_all add: zk_set_def)

lemma lookup_zk_set:
  "lookup (snd (zk_set p v z)) q = (if q = p \<and> lookup z p \<noteq> None then Some v else lookup z q)"
  by (auto simp: zk_set_def lookup_def map_of_update_value)

lemma node_exists_zk_set [simp]: "node_exists (snd (zk_set p v z)) q = node_exists z q"
  by (auto simp: node_exists_def lookup_zk_set)

lemma children_of_zk_set [simp]: "children_of (snd (zk_set p v z)) q = children_of z q"
proof -
  have "(fst \<circ> (\<lambda>(q, w). if q = p then (q, v) else (q, w))) = fst"
    by (auto simp: fun_eq_iff)
  then show ?thesis by (simp add: zk_set_def children_of_def)
qed

lemma with_lock_root_fields [simp]:
  "faults (with_lock_root app t k z) = faults z"
  "trace (with_lock_root app t k z) = trace z"
  by (simp_all add: with_lock_root_def)

lemma with_lock_root_trace:
  "with_lock_root app t k (z\<lparr>trace := tr\<rparr>) = (with_lock_root app t k z)\<lparr>trace := tr\<rparr>"
  by (simp add: with_lock_root_def ensure_path_trace)

lemma parent_of_lock_root:
  "parent_of (get_lock_root_path app k) = get_app_root_path app @ ''/locks''"
proof -
  have "CHR ''/'' \<notin> set (quote_plus k)"
  proof -
    have "CHR ''/'' \<notin> set (quote_char c)" for c
    proof -
      have "(of_char c :: nat) div 16 < 16" using of_char_less_256 [of c]
        by (simp add: less_mult_imp_div_less)
      moreover have "(of_char c :: nat) mod 16 < 16" by simp
      ultimately have "hex_digit ((of_char c :: nat) div 16) \<noteq> CHR ''/''"
        and "hex_digit ((of_char c :: nat) mod 16) \<noteq> CHR ''/''"
        using hex_digit_mem by fastforce+
      then show ?thesis by (auto simp: quote_char_def always_safe_def)
    qed
    then show ?thesis by (induction k) (simp_all add: quote_plus_def)
  qed
  then show ?thesis
    using parent_of_append [of "quote_plus k" "get_app_root_path app @ ''/locks''"]
    by (simp add: path_simps)
qed

lemma lookup_with_lock_root_Some:
  "lookup z q = Some w \<Longrightarrow> lookup (with_lock_root app t k z) q = Some w"
  by (simp add: with_lock_root_def lookup_add_node lookup_ensure_path_Some)

lemma lookup_with_lock_root_tx:
  "prefix (get_app_root_path app @ ''/txids'') q \<Longrightarrow>
   lookup (with_lock_root app t k z) q = lookup z q"
proof -
  assume p: "prefix (get_app_root_path app @ ''/txids'') q"
  then obtain r where q: "q = get_app_root_path app @ ''/txids'' @ r" by (auto simp: prefix_def)
  have "\<not> prefix q (get_app_root_path app @ ''/locks'')"
    by (auto simp: q)
  then have "lookup (ensure_path (parent_of (get_lock_root_path app k)) z) q = lookup z q"
    by (simp add: parent_of_lock_root lookup_ensure_path_other)
  moreover have "q \<noteq> get_lock_root_path app k"
    by (simp add: q path_simps)
  ultimately show ?thesis
    by (simp add: with_lock_root_def lookup_add_node split: option.splits)
qed

lemma lookup_with_lock_root_self:
  "lookup z (get_lock_root_path app k) = None \<Longrightarrow>
   lookup (with_lock_root app t k z) (get_lock_root_path app k) = Some (get_transaction_path app t)"
proof -
  assume n: "lookup z (get_lock_root_path app k) = None"
  have "\<not> prefix (get_lock_root_path app k) (parent_of (get_lock_root_path app k))"
    by (rule not_prefix_parent) simp
  then have "lookup (ensure_path (parent_of (get_lock_root_path app k)) z) (get_lock_root_path app k)
               = None"
    using n by (simp add: lookup_ensure_path_other)
  then show ?thesis by (simp add: with_lock_root_def lookup_add_node)
qed

lemma lookup_with_lock_root_other_lock:
  "lookup z (get_lock_root_path app k') = None \<Longrightarrow>
   get_lock_root_path app k' \<noteq> get_lock_root_path app k \<Longrightarrow>
   lookup (with_lock_root app t k z) (get_lock_root_path app k') = None"
proof -
  assume n: "lookup z (get_lock_root_path app k') = None"
    and ne: "get_lock_root_path app k' \<noteq> get_lock_root_path app k"
  have "\<not> prefix (get_lock_root_path app k') (get_app_root_path app @ ''/locks'')"
    by (simp add: path_simps)
  then have "lookup (ensure_path (parent_of (get_lock_root_path app k)) z) (get_lock_root_path app k')
               = None"
    using n by (simp add: parent_of_lock_root lookup_ensure_path_other)
  then show ?thesis using ne by (simp add: with_lock_root_def lookup_add_node)
qed

lemma node_exists_with_lock_root_tx:
  "prefix (get_app_root_path app @ ''/txids'') q \<Longrightarrow>
   node_exists (with_lock_root app t k z) q = node_exists z q"
  by (simp add: node_exists_def lookup_with_lock_root_tx)

lemma children_of_with_lock_root_tx:
  "prefix (get_app_root_path app @ ''/txids'') q \<Longrightarrow>
   children_of (with_lock_root app t k z) q = children_of z q"
proof -
  assume p: "prefix (get_app_root_path app @ ''/txids'') q"
  then obtain r where q: "q = get_app_root_path app @ ''/txids'' @ r" by (auto simp: prefix_def)
  have np: "\<not> prefix (q @ ''/'') (get_app_root_path app @ ''/locks'')"
    by (auto simp: q)
  have "\<not> is_child q (get_lock_root_path app k)"
    by (auto simp: is_child_def q path_simps)
  with np show ?thesis
    by (simp add: with_lock_root_def children_of_add_node children_of_ensure_path
        parent_of_lock_root)
qed

lemma blacklisted_with_lock_root [simp]:
  "blacklisted (with_lock_root app t k z) app i = blacklisted z app i"
  by (simp add: blacklisted_def children_of_with_lock_root_tx path_simps)

lemma acquire_additional_lock_free:
  assumes "faults z = []"
    and "lookup z (get_lock_root_path app k) = None"
  shows "acquire_additional_lock app t k True z
     = (Inr True,
        snd (zk_create (get_transaction_lock_list_path app t) (get_lock_root_path app k)
               False False False
               ((with_lock_root app t k z)\<lparr>trace := trace z
                  @ [(MCreate, get_lock_root_path app k),
                     (MCreateAsync, get_transaction_lock_list_path app t)]\<rparr>)))"
    and "lookup z (get_transaction_lock_list_path app t) = Some v \<Longrightarrow>
         acquire_additional_lock app t k False z
     = (if MAX_GROUPS_FOR_XG \<le> length (py_split v LOCK_LIST_SEPARATOR)
        then (Inl (ZKTransactionException TooManyGroups),
              (with_lock_root app t k z)\<lparr>trace := trace z
                 @ [(MCreate, get_lock_root_path app k),
                    (MGet, get_transaction_lock_list_path app t)]\<rparr>)
        else (Inr True,
              snd (zk_set (get_transaction_lock_list_path app t)
                     (py_join LOCK_LIST_SEPARATOR
                        (py_split v LOCK_LIST_SEPARATOR @ [get_lock_root_path app k]))
                     ((with_lock_root app t k z)\<lparr>trace := trace z
                        @ [(MCreate, get_lock_root_path app k),
                           (MGet, get_transaction_lock_list_path app t),
                           (MSetAsync, get_transaction_lock_list_path app t)]\<rparr>))))"
proof -
  have fresh: "\<not> node_exists z (get_lock_root_path app k)"
    using assms(2) by (simp add: node_exists_def)
  have cr: "run_with_timeout DEFAULT_ZK_TIMEOUT DEFAULT_NUM_RETRIES handle_create
              [AStr (get_lock_root_path app k), AStr (get_transaction_path app t), ANone,
               ABool False, ABool False, ABool True] z
            = (Inr (VStr (get_lock_root_path app k)),
               (with_lock_root app t k z)\<lparr>trace := trace z @ [(MCreate, get_lock_root_path app k)]\<rparr>)"
    using assms(1) fresh
    by (simp add: rwt_create_quiet zk_create_mk_fresh with_lock_root_def ensure_path_trace)
  show "acquire_additional_lock app t k True z
     = (Inr True,
        snd (zk_create (get_transaction_lock_list_path app t) (get_lock_root_path app k)
               False False False
               ((with_lock_root app t k z)\<lparr>trace := trace z
                  @ [(MCreate, get_lock_root_path app k),
                     (MCreateAsync, get_transaction_lock_list_path app t)]\<rparr>)))"
    by (simp add: acquire_additional_lock_def act_defs cr rwt_create_async str_val_def)
  show "acquire_additional_lock app t k False z
     = (if MAX_GROUPS_FOR_XG \<le> length (py_split v LOCK_LIST_SEPARATOR)
        then (Inl (ZKTransactionException TooManyGroups),
              (with_lock_root app t k z)\<lparr>trace := trace z
                 @ [(MCreate, get_lock_root_path app k),
                    (MGet, get_transaction_lock_list_path app t)]\<rparr>)
        else (Inr True,
              snd (zk_set (get_transaction_lock_list_path app t)
                     (py_join LOCK_LIST_SEPARATOR
                        (py_split v LOCK_LIST_SEPARATOR @ [get_lock_root_path app k]))
                     ((with_lock_root app t k z)\<lparr>trace := trace z
                        @ [(MCreate, get_lock_root_path app k),
                           (MGet, get_transaction_lock_list_path app t),
                           (MSetAsync, get_transaction_lock_list_path app t)]\<rparr>))))"
    if v: "lookup z (get_transaction_lock_list_path app t) = Some v"
  proof -
    have lv: "lookup (with_lock_root app t k z) (get_transaction_lock_list_path app t) = Some v"
      using v by (rule lookup_with_lock_root_Some)
    show ?thesis
      using assms(1) lv
      by (simp add: acquire_additional_lock_def act_defs cr rwt_get_quiet rwt_set_async
          str_val_def)
  qed
qed

lemma served_quiet: "faults z = [] \<Longrightarrow> served r z = z\<lparr>trace := trace z @ r\<rparr>"
  by (simp add: served_def faults_nil_update)

lemma checked_fields [simp]:
  "faults (checked app t z) = faults z"
  "lookup (checked app t z) = lookup (with_blacklist_root app z)"
  "node_exists (checked app t z) = node_exists (with_blacklist_root app z)"
  "children_of (checked app t z) = children_of (with_blacklist_root app z)"
  "blacklisted (checked app t z) app i = blacklisted z app i"
  by (simp_all add: checked_def)

lemma acquire_lock_reaches_additional:
  assumes "faults z = []"
    and "\<not> blacklisted z app t"
  shows "lookup z (get_transaction_lock_list_path app t) = None \<Longrightarrow>
         acquire_lock app t k z = acquire_additional_lock app t k True (checked app t z)"
    and "lookup z (get_transaction_lock_list_path app t) = Some v \<Longrightarrow>
         get_lock_root_path app k \<notin> set (py_split v LOCK_LIST_SEPARATOR) \<Longrightarrow>
         node_exists z (get_xg_path app t) \<Longrightarrow>
         acquire_lock app t k z = acquire_additional_lock app t k False (checked app t z)"
  using assms
  by (simp_all add: acquire_lock_def act_defs is_in_transaction_quiet rwt_get_quiet is_xg_quiet
      lookup_with_blacklist_root_Some node_exists_with_blacklist_root_other checked_def)

lemma acquire_lock_blacklisted:
  "faults z = [] \<Longrightarrow> blacklisted z app t \<Longrightarrow>
   acquire_lock app t k z
     = (Inl (ZKTransactionException TransactionTimedOut),
        (with_blacklist_root app z)\<lparr>trace := trace z @ blacklist_requests app z\<rparr>)"
  by (simp add: acquire_lock_def act_defs is_in_transaction_quiet)

lemma acquire_additional_lock_held_quiet:
  assumes "faults z = []"
    and "lookup z (get_lock_root_path app k) = Some owner"
  shows "acquire_additional_lock app t k create z
     = (Inl (ZKTransactionException AlreadyHeld),
        (ensure_path (parent_of (get_lock_root_path app k)) z)
          \<lparr>trace := trace z @ [(MCreate, get_lock_root_path app k),
                                (MGet, get_lock_root_path app k)]\<rparr>)"
proof -
  have a: "answered (Suc 0) z" using assms(1) by (rule quiet_answered)
  have f: "fault_at (Suc 0) z = None \<or> fault_at (Suc 0) z = Some NoNodeError"
    using assms(1) by (simp add: fault_at_def)
  show ?thesis
    using acquire_additional_lock_contended [OF a f assms(2)] assms(1)
    by (simp add: served_quiet)
qed

lemma lookup_tx_paths_checked:
  "lookup (checked app t z) (get_transaction_lock_list_path app t)
     = lookup z (get_transaction_lock_list_path app t)"
  "node_exists (checked app t z) (get_xg_path app t) = node_exists z (get_xg_path app t)"
  "node_exists (checked app t z) (get_transaction_path app t)
     = node_exists z (get_transaction_path app t)"
  by (simp_all add: lookup_with_blacklist_root_other node_exists_with_blacklist_root_other)

lemma lookup_lock_root_checked:
  "lookup (checked app t z) (get_lock_root_path app k) = lookup z (get_lock_root_path app k)"
  by (simp add: lookup_with_blacklist_root_other)

lemma parent_of_lock_list_path:
  "parent_of (get_transaction_lock_list_path app t) = get_transaction_path app t"
  using parent_of_append [of "''lockpath''" "get_transaction_path app t"]
  by (simp add: path_simps)

lemma lookup_zk_create_Some:
  "lookup z q = Some w \<Longrightarrow> lookup (snd (zk_create p v e s m z)) q = Some w"
  by (simp add: zk_create_def Let_def lookup_add_node lookup_ensure_path_Some)

lemma lookup_zk_create_other:
  "\<not> prefix q (parent_of p) \<Longrightarrow> q \<noteq> p \<Longrightarrow>
   lookup (snd (zk_create p v e False m z)) q = lookup z q"
  by (simp add: zk_create_def Let_def lookup_add_node lookup_ensure_path_other
      split: option.splits)

lemma node_exists_zk_create_other:
  "\<not> prefix q (parent_of p) \<Longrightarrow> q \<noteq> p \<Longrightarrow>
   node_exists (snd (zk_create p v e False m z)) q = node_exists z q"
  by (simp add: node_exists_def lookup_zk_create_other)

lemma node_exists_zk_create_mono:
  "node_exists z q \<Longrightarrow> node_exists (snd (zk_create p v e s m z)) q"
  by (auto simp: node_exists_def dest: lookup_zk_create_Some)

lemma lookup_zk_create_new:
  "lookup z p = None \<Longrightarrow> node_exists z (parent_of p) \<Longrightarrow> p \<noteq> [] \<Longrightarrow>
   lookup (snd (zk_create p v e False m z)) p = Some v"
proof -
  assume n: "lookup z p = None" and pe: "node_exists z (parent_of p)" and ne: "p \<noteq> []"
  have "\<not> prefix p (parent_of p)" using ne by (rule not_prefix_parent)
  then have "lookup (ensure_path (parent_of p) z) p = None"
    using n by (simp add: lookup_ensure_path_other)
  then show ?thesis using ne pe
    by (simp add: zk_create_def Let_def node_exists_def lookup_add_node)
qed

lemma lookup_zk_create_orphan:
  "\<not> node_exists z (parent_of p) \<Longrightarrow> snd (zk_create p v e s False z) = z"
  by (simp add: zk_create_def)

lemma children_of_zk_create_other:
  "\<not> prefix (q @ ''/'') (parent_of p) \<Longrightarrow> \<not> is_child q p \<Longrightarrow>
   children_of (snd (zk_create p v e False m z)) q = children_of z q"
  by (simp add: zk_create_def Let_def children_of_add_node children_of_ensure_path)

lemma blacklisted_zk_create_lockpath [simp]:
  "blacklisted (snd (zk_create (get_transaction_lock_list_path app t) v e False m z)) app i
     = blacklisted z app i"
proof -
  have "\<not> is_child (get_blacklist_root_path app) (get_transaction_lock_list_path app t)"
    by (auto simp: is_child_def path_simps)
  moreover have "\<not> prefix (get_blacklist_root_path app @ ''/'') (get_transaction_path app t)"
    by (simp add: path_simps)
  ultimately show ?thesis
    by (simp add: blacklisted_def children_of_zk_create_other parent_of_lock_list_path)
qed

lemma blacklisted_zk_set [simp]: "blacklisted (snd (zk_set p v z)) app i = blacklisted z app i"
  by (simp add: blacklisted_def)

lemma blacklisted_ensure_locks [simp]:
  "blacklisted (ensure_path (parent_of (get_lock_root_path app k)) z) app i = blacklisted z app i"
proof -
  have "\<not> prefix (get_blacklist_root_path app @ ''/'') (get_app_root_path app @ ''/locks'')"
    by (simp add: path_simps)
  then show ?thesis
    by (simp add: blacklisted_def children_of_ensure_path parent_of_lock_root)
qed

lemma lookup_ensure_locks_tx:
  "prefix (get_app_root_path app @ ''/txids'') q \<Longrightarrow>
   lookup (ensure_path (parent_of (get_lock_root_path app k)) z) q = lookup z q"
proof -
  assume "prefix (get_app_root_path app @ ''/txids'') q"
  then obtain r where q: "q = get_app_root_path app @ ''/txids'' @ r" by (auto simp: prefix_def)
  have "\<not> prefix q (get_app_root_path app @ ''/locks'')" by (auto simp: q)
  then show ?thesis by (simp add: parent_of_lock_root lookup_ensure_path_other)
qed

lemma lookup_ensure_locks_lock:
  "lookup (ensure_path (parent_of (get_lock_root_path app k)) z) (get_lock_root_path app k')
     = lookup z (get_lock_root_path app k')"
proof -
  have "\<not> prefix (get_lock_root_path app k') (get_app_root_path app @ ''/locks'')"
    by (simp add: path_simps)
  then show ?thesis by (simp add: parent_of_lock_root lookup_ensure_path_other)
qed

lemma tx_paths_prefix [simp]:
  "prefix (get_app_root_path app @ ''/txids'') (get_transaction_lock_list_path app t)"
  "prefix (get_app_root_path app @ ''/txids'') (get_xg_path app t)"
  "prefix (get_app_root_path app @ ''/txids'') (get_transaction_path app t)"
  by (simp_all add: path_simps)

text \<open>The first lock of a transaction whose node exists, on a free lock root.\<close>

lemma acquire_lock_first_free:
  assumes "faults z = []"
    and "\<not> blacklisted z app t"
    and "lookup z (get_transaction_lock_list_path app t) = None"
    and "lookup z (get_lock_root_path app k) = None"
    and "node_exists z (get_transaction_path app t)"
  shows "fst (acquire_lock app t k z) = Inr True"
    and "faults (snd (acquire_lock app t k z)) = []"
    and "\<not> blacklisted (snd (acquire_lock app t k z)) app t"
    and "lookup (snd (acquire_lock app t k z)) (get_transaction_lock_list_path app t)
           = Some (get_lock_root_path app k)"
    and "node_exists (snd (acquire_lock app t k z)) (get_xg_path app t)
           = node_exists z (get_xg_path app t)"
    and "node_exists (snd (acquire_lock app t k z)) (get_transaction_path app t)"
    and "get_lock_root_path app k' \<noteq> get_lock_root_path app k \<Longrightarrow>
         lookup (snd (acquire_lock app t k z)) (get_lock_root_path app k')
           = lookup z (get_lock_root_path app k')"
proof -
  let ?lp = "get_transaction_lock_list_path app t"
  let ?lr = "get_lock_root_path app k"
  let ?c = "checked app t z"
  let ?y = "(with_lock_root app t k ?c)\<lparr>trace := trace ?c @ [(MCreate, ?lr), (MCreateAsync, ?lp)]\<rparr>"
  have qc: "faults ?c = []" using assms(1) by simp
  have free: "lookup ?c ?lr = None"
    using assms(4) by (simp add: lookup_with_blacklist_root_other)
  have run: "acquire_lock app t k z = (Inr True, snd (zk_create ?lp ?lr False False False ?y))"
    using acquire_lock_reaches_additional(1) [OF assms(1,2,3)]
      acquire_additional_lock_free(1) [OF qc free]
    by simp
  have ylp: "lookup ?y ?lp = None"
    using assms(3) by (simp add: lookup_with_lock_root_tx lookup_with_blacklist_root_other node_exists_with_blacklist_root_other)
  have ytx: "node_exists ?y (get_transaction_path app t)"
    using assms(5) by (simp add: node_exists_with_lock_root_tx lookup_with_blacklist_root_other node_exists_with_blacklist_root_other)
  show "fst (acquire_lock app t k z) = Inr True" by (simp add: run)
  show "faults (snd (acquire_lock app t k z)) = []" using assms(1) by (simp add: run)
  show "\<not> blacklisted (snd (acquire_lock app t k z)) app t"
    using assms(2) by (simp add: run)
  show "lookup (snd (acquire_lock app t k z)) ?lp = Some ?lr"
    using ylp ytx by (simp add: run lookup_zk_create_new parent_of_lock_list_path)
  have nx: "\<not> prefix (get_xg_path app t) (get_transaction_path app t)"
    "get_xg_path app t \<noteq> ?lp"
    by (simp_all add: path_simps)
  show "node_exists (snd (acquire_lock app t k z)) (get_xg_path app t)
           = node_exists z (get_xg_path app t)"
    using nx
    by (simp add: run node_exists_zk_create_other parent_of_lock_list_path
        node_exists_with_lock_root_tx lookup_with_blacklist_root_other node_exists_with_blacklist_root_other)
  show "node_exists (snd (acquire_lock app t k z)) (get_transaction_path app t)"
    using ytx by (simp add: run node_exists_zk_create_mono)
  show "lookup (snd (acquire_lock app t k z)) (get_lock_root_path app k')
           = lookup z (get_lock_root_path app k')"
    if ne: "get_lock_root_path app k' \<noteq> get_lock_root_path app k"
  proof -
    have np: "\<not> prefix (get_lock_root_path app k') (get_transaction_path app t)"
      "get_lock_root_path app k' \<noteq> ?lp"
      by (simp_all add: path_simps)
    have "lookup ?y (get_lock_root_path app k') = lookup z (get_lock_root_path app k')"
    proof (cases "lookup z (get_lock_root_path app k')")
      case None
      then have "lookup ?c (get_lock_root_path app k') = None"
        by (simp add: lookup_with_blacklist_root_other)
      then show ?thesis using ne None by (simp add: lookup_with_lock_root_other_lock)
    next
      case (Some w)
      then have "lookup ?c (get_lock_root_path app k') = Some w"
        by (simp add: lookup_with_blacklist_root_other)
      then show ?thesis using Some by (simp add: lookup_with_lock_root_Some)
    qed
    then show ?thesis
      using np by (simp add: run lookup_zk_create_other parent_of_lock_list_path)
  qed
qed

text \<open>A further lock of an XG transaction, on a free lock root.\<close>

lemma acquire_lock_add_free:
  assumes "faults z = []"
    and "\<not> blacklisted z app t"
    and "lookup z (get_transaction_lock_list_path app t) = Some v"
    and "get_lock_root_path app k \<notin> set (py_split v LOCK_LIST_SEPARATOR)"
    and "node_exists z (get_xg_path app t)"
    and "lookup z (get_lock_root_path app k) = None"
  shows "fst (acquire_lock app t k z)
           = (if MAX_GROUPS_FOR_XG \<le> length (py_split v LOCK_LIST_SEPARATOR)
              then Inl (ZKTransactionException TooManyGroups) else Inr True)"
    and "faults (snd (acquire_lock app t k z)) = []"
    and "\<not> blacklisted (snd (acquire_lock app t k z)) app t"
    and "lookup (snd (acquire_lock app t k z)) (get_transaction_lock_list_path app t)
           = Some (if MAX_GROUPS_FOR_XG \<le> length (py_split v LOCK_LIST_SEPARATOR) then v
                   else py_join LOCK_LIST_SEPARATOR
                          (py_split v LOCK_LIST_SEPARATOR @ [get_lock_root_path app k]))"
    and "node_exists (snd (acquire_lock app t k z)) (get_xg_path app t)"
    and "node_exists z (get_transaction_path app t) \<Longrightarrow>
         node_exists (snd (acquire_lock app t k z)) (get_transaction_path app t)"
    and "get_lock_root_path app k' \<noteq> get_lock_root_path app k \<Longrightarrow>
         lookup (snd (acquire_lock app t k z)) (get_lock_root_path app k')
           = lookup z (get_lock_root_path app k')"
proof -
  let ?lp = "get_transaction_lock_list_path app t"
  let ?lr = "get_lock_root_path app k"
  let ?c = "checked app t z"
  let ?w = "with_lock_root app t k ?c"
  let ?many = "MAX_GROUPS_FOR_XG \<le> length (py_split v LOCK_LIST_SEPARATOR)"
  let ?v' = "py_join LOCK_LIST_SEPARATOR (py_split v LOCK_LIST_SEPARATOR @ [?lr])"
  have qc: "faults ?c = []" using assms(1) by simp
  have free: "lookup ?c ?lr = None"
    using assms(6) by (simp add: lookup_with_blacklist_root_other)
  have clp: "lookup ?c ?lp = Some v"
    using assms(3) by (simp add: lookup_with_blacklist_root_other node_exists_with_blacklist_root_other)
  have run: "acquire_lock app t k z
     = (if ?many
        then (Inl (ZKTransactionException TooManyGroups),
              ?w\<lparr>trace := trace ?c @ [(MCreate, ?lr), (MGet, ?lp)]\<rparr>)
        else (Inr True,
              snd (zk_set ?lp ?v'
                     (?w\<lparr>trace := trace ?c @ [(MCreate, ?lr), (MGet, ?lp), (MSetAsync, ?lp)]\<rparr>))))"
    using acquire_lock_reaches_additional(2) [OF assms(1,2,3,4,5)]
      acquire_additional_lock_free(2) [OF qc free clp]
    by simp
  have wlp: "lookup ?w ?lp = Some v"
    using clp by (rule lookup_with_lock_root_Some)
  have wxg: "node_exists ?w (get_xg_path app t)"
    using assms(5) by (simp add: node_exists_with_lock_root_tx lookup_with_blacklist_root_other node_exists_with_blacklist_root_other)
  show "fst (acquire_lock app t k z)
           = (if ?many then Inl (ZKTransactionException TooManyGroups) else Inr True)"
    by (simp add: run)
  show "faults (snd (acquire_lock app t k z)) = []" using assms(1) by (simp add: run)
  show "\<not> blacklisted (snd (acquire_lock app t k z)) app t"
    using assms(2) by (simp add: run)
  show "lookup (snd (acquire_lock app t k z)) ?lp = Some (if ?many then v else ?v')"
    using wlp by (simp add: run lookup_zk_set)
  show "node_exists (snd (acquire_lock app t k z)) (get_xg_path app t)"
    using wxg by (simp add: run)
  show "node_exists (snd (acquire_lock app t k z)) (get_transaction_path app t)"
    if "node_exists z (get_transaction_path app t)"
    using that
    by (simp add: run node_exists_with_lock_root_tx lookup_with_blacklist_root_other node_exists_with_blacklist_root_other)
  show "lookup (snd (acquire_lock app t k z)) (get_lock_root_path app k')
           = lookup z (get_lock_root_path app k')"
    if ne: "get_lock_root_path app k' \<noteq> get_lock_root_path app k"
  proof -
    have nl: "get_lock_root_path app k' \<noteq> ?lp" by (simp add: path_simps)
    have "lookup ?w (get_lock_root_path app k') = lookup z (get_lock_root_path app k')"
    proof (cases "lookup z (get_lock_root_path app k')")
      case None
      then have "lookup ?c (get_lock_root_path app k') = None"
        by (simp add: lookup_with_blacklist_root_other)
      then show ?thesis using ne None by (simp add: lookup_with_lock_root_other_lock)
    next
      case (Some w)
      then have "lookup ?c (get_lock_root_path app k') = Some w"
        by (simp add: lookup_with_blacklist_root_other)
      then show ?thesis using Some by (simp add: lookup_with_lock_root_Some)
    qed
    then show ?thesis using nl by (simp add: run lookup_zk_set)
  qed
qed

lemma lock_roots_no_bang: "list_all (\<lambda>r. CHR ''!'' \<notin> set r) (map (get_lock_root_path app) hs)"
  by (simp add: list_all_iff lock_root_no_bang)

lemma split_lock_roots:
  "hs \<noteq> [] \<Longrightarrow>
   py_split (py_join LOCK_LIST_SEPARATOR (map (get_lock_root_path app) hs)) LOCK_LIST_SEPARATOR
     = map (get_lock_root_path app) hs"
  by (rule py_split_join) (simp_all add: lock_roots_no_bang)

lemma acquire_locks_from:
  assumes "faults z = []"
    and "\<not> blacklisted z app t"
    and "node_exists z (get_transaction_path app t)"
    and "lookup z (get_transaction_lock_list_path app t)
           = (if hs = [] then None
              else Some (py_join LOCK_LIST_SEPARATOR (map (get_lock_root_path app) hs)))"
    and "distinct (map (get_lock_root_path app) (hs @ ks))"
    and "\<forall>k\<in>set ks. lookup z (get_lock_root_path app k) = None"
    and "length hs \<le> max_groups app t z"
  shows "fst (acquire_locks app t ks z)
           = replicate (min (length ks) (max_groups app t z - length hs)) (Inr True)
             @ replicate (length ks - (max_groups app t z - length hs)) (Inl (refusal app t z))
     \<and> lookup (snd (acquire_locks app t ks z)) (get_transaction_lock_list_path app t)
           = (if hs @ ks = [] then None
              else Some (py_join LOCK_LIST_SEPARATOR
                           (map (get_lock_root_path app) (take (max_groups app t z) (hs @ ks)))))"
  using assms
proof (induction ks arbitrary: hs z)
  case Nil
  then show ?case by simp
next
  case (Cons k ks)
  let ?z1 = "snd (acquire_lock app t k z)"
  let ?lp = "get_transaction_lock_list_path app t"
  let ?m = "max_groups app t z"
  have free: "lookup z (get_lock_root_path app k) = None" using Cons.prems(6) by simp
  have others: "get_lock_root_path app k' \<noteq> get_lock_root_path app k" if "k' \<in> set ks" for k'
  proof
    assume "get_lock_root_path app k' = get_lock_root_path app k"
    then have "get_lock_root_path app k \<in> get_lock_root_path app ` set ks"
      using that by (auto intro: rev_image_eqI)
    then show False using Cons.prems(5) by simp
  qed
  have run: "acquire_locks app t (k # ks) z
       = (fst (acquire_lock app t k z) # fst (acquire_locks app t ks ?z1),
          snd (acquire_locks app t ks ?z1))"
    by (simp split: prod.splits)
  show ?case
  proof (cases "hs = []")
    case True
    have lp: "lookup z ?lp = None" using Cons.prems(4) True by simp
    note e = acquire_lock_first_free [OF Cons.prems(1,2) lp free Cons.prems(3)]
    have m1: "max_groups app t ?z1 = ?m" "refusal app t ?z1 = refusal app t z"
      by (simp_all add: max_groups_def refusal_def e(5))
    have pos: "0 < ?m" by (simp add: max_groups_def MAX_GROUPS_FOR_XG_def)
    have ih: "fst (acquire_locks app t ks ?z1)
           = replicate (min (length ks) (?m - 1)) (Inr True)
             @ replicate (length ks - (?m - 1)) (Inl (refusal app t z))
     \<and> lookup (snd (acquire_locks app t ks ?z1)) ?lp
           = Some (py_join LOCK_LIST_SEPARATOR
                           (map (get_lock_root_path app) (take ?m (k # ks))))"
      using Cons.IH [of ?z1 "[k]"] e(1,2,3,4,6) e(7) others Cons.prems(5,6) True pos m1
      by simp
    have a1: "min (Suc (length ks)) ?m = Suc (min (length ks) (?m - 1))"
      using pos by (cases ?m) simp_all
    have a2: "Suc (length ks) - ?m = length ks - (?m - 1)"
      using pos by simp
    show ?thesis
      using ih e(1) True
      by (simp add: run a1 a2 del: acquire_locks.simps)
  next
    case False
    let ?v = "py_join LOCK_LIST_SEPARATOR (map (get_lock_root_path app) hs)"
    have lp: "lookup z ?lp = Some ?v" using Cons.prems(4) False by simp
    have sp: "py_split ?v LOCK_LIST_SEPARATOR = map (get_lock_root_path app) hs"
      using False by (rule split_lock_roots)
    have nin: "get_lock_root_path app k \<notin> set (py_split ?v LOCK_LIST_SEPARATOR)"
      using Cons.prems(5) by (auto simp: sp)
    show ?thesis
    proof (cases "node_exists z (get_xg_path app t)")
      case xg: True
      note e = acquire_lock_add_free [OF Cons.prems(1,2) lp nin xg free]
      have m: "?m = MAX_GROUPS_FOR_XG" using xg by (simp add: max_groups_def)
      have m1: "max_groups app t ?z1 = ?m" "refusal app t ?z1 = refusal app t z"
        using xg e(5) by (simp_all add: max_groups_def refusal_def)
      show ?thesis
      proof (cases "MAX_GROUPS_FOR_XG \<le> length hs")
        case full: True
        then have len: "length hs = ?m" using Cons.prems(7) m by simp
        have ih: "fst (acquire_locks app t ks ?z1)
             = replicate (length ks) (Inl (refusal app t z))
           \<and> lookup (snd (acquire_locks app t ks ?z1)) ?lp
             = Some (py_join LOCK_LIST_SEPARATOR (map (get_lock_root_path app) (take ?m hs)))"
          using Cons.IH [of ?z1 hs] e(2,3) e(4) e(6) [OF Cons.prems(3)] e(7) others
            Cons.prems(5,6,7) False full sp m1 len
          by simp
        show ?thesis
          using ih e(1) full sp len xg False
          by (simp add: run refusal_def del: acquire_locks.simps)
      next
        case room: False
        have ih: "fst (acquire_locks app t ks ?z1)
             = replicate (min (length ks) (?m - Suc (length hs))) (Inr True)
               @ replicate (length ks - (?m - Suc (length hs))) (Inl (refusal app t z))
           \<and> lookup (snd (acquire_locks app t ks ?z1)) ?lp
             = Some (py_join LOCK_LIST_SEPARATOR
                       (map (get_lock_root_path app) (take ?m (hs @ k # ks))))"
          using Cons.IH [of ?z1 "hs @ [k]"] e(2,3) e(4) e(6) [OF Cons.prems(3)] e(7) others
            Cons.prems(5,6,7) False room sp m1 m
          by simp
        have d: "?m - length hs = Suc (?m - Suc (length hs))" using room m by simp
        have a1: "min (Suc (length ks)) (?m - length hs)
                    = Suc (min (length ks) (?m - Suc (length hs)))"
          by (simp add: d)
        have a2: "Suc (length ks) - (?m - length hs) = length ks - (?m - Suc (length hs))"
          by (simp add: d)
        show ?thesis
          using ih e(1) room sp False by (simp add: run a1 a2 del: acquire_locks.simps)
      qed
    next
      case nxg: False
      have m: "?m = 1" using nxg by (simp add: max_groups_def)
      then have len: "length hs = 1" using Cons.prems(7) False by (cases hs) simp_all
      have r: "acquire_lock app t k z
         = (Inl (ZKTransactionException DifferentRootEntity),
            (with_blacklist_root app z)\<lparr>trace := trace z @ blacklist_requests app z
               @ [(MExists, ?lp), (MGet, ?lp), (MExists, get_xg_path app t)]\<rparr>)"
        using Cons.prems(1,2) lp nxg nin by (rule acquire_lock_other_root_non_xg)
      have m1: "max_groups app t ?z1 = ?m" "refusal app t ?z1 = refusal app t z"
        using nxg by (simp_all add: r max_groups_def refusal_def node_exists_with_blacklist_root_other)
      have ih: "fst (acquire_locks app t ks ?z1)
             = replicate (length ks) (Inl (refusal app t z))
           \<and> lookup (snd (acquire_locks app t ks ?z1)) ?lp
             = Some (py_join LOCK_LIST_SEPARATOR (map (get_lock_root_path app) (take ?m hs)))"
        using Cons.IH [of ?z1 hs] Cons.prems False len m m1
        by (simp add: r lookup_with_blacklist_root_other node_exists_with_blacklist_root_other)
      show ?thesis
        using ih len m nxg False
        by (simp add: run r refusal_def del: acquire_locks.simps)
    qed
  qed
qed

subsection \<open>Different keys have different lock roots\<close>

lemma hex_digit_inj: "a < 16 \<Longrightarrow> b < 16 \<Longrightarrow> hex_digit a = hex_digit b \<Longrightarrow> a = b"
proof -
  assume a: "a < 16" and b: "b < 16" and e: "hex_digit a = hex_digit b"
  have d: "distinct ''0123456789ABCDEF''" by simp
  have "a < length ''0123456789ABCDEF''" "b < length ''0123456789ABCDEF''"
    using a b by simp_all
  with d e show ?thesis
    unfolding hex_digit_def by (simp only: nth_eq_iff_index_eq)
qed

lemma hex_digit_not_safe_start:
  "d < 16 \<Longrightarrow> hex_digit d \<noteq> CHR ''%'' \<and> hex_digit d \<noteq> CHR ''+''"
  using hex_digit_mem [of d] by auto

lemma quote_char_cases:
  "(always_safe c \<and> quote_char c = [c])
   \<or> (c = CHR '' '' \<and> quote_char c = ''+'')
   \<or> (\<not> always_safe c \<and> c \<noteq> CHR '' ''
      \<and> quote_char c = [CHR ''%'', hex_digit ((of_char c :: nat) div 16),
                         hex_digit ((of_char c :: nat) mod 16)])"
  by (auto simp: quote_char_def always_safe_def)

lemma safe_not_special: "always_safe c \<Longrightarrow> c \<noteq> CHR ''%'' \<and> c \<noteq> CHR ''+'' \<and> c \<noteq> CHR '' ''"
  by (auto simp: always_safe_def)

lemma of_char_div_mod_inj:
  assumes "(of_char c :: nat) div 16 = of_char d div 16"
    and "(of_char c :: nat) mod 16 = of_char d mod 16"
  shows "c = d"
proof -
  have "(of_char c :: nat) = of_char d"
    using assms by (metis div_mult_mod_eq)
  then show ?thesis by simp
qed

lemma quote_char_prefix_free:
  assumes "quote_char c @ r1 = quote_char d @ r2"
  shows "c = d \<and> r1 = r2"
proof -
  have hc: "(of_char c :: nat) div 16 < 16" "(of_char c :: nat) mod 16 < 16"
    using of_char_less_256 [of c] by (simp_all add: less_mult_imp_div_less)
  have hd: "(of_char d :: nat) div 16 < 16" "(of_char d :: nat) mod 16 < 16"
    using of_char_less_256 [of d] by (simp_all add: less_mult_imp_div_less)
  consider (s) "always_safe c" "quote_char c = [c]"
    | (b) "c = CHR '' ''" "quote_char c = ''+''"
    | (h) "\<not> always_safe c" "c \<noteq> CHR '' ''"
          "quote_char c = [CHR ''%'', hex_digit ((of_char c :: nat) div 16),
                           hex_digit ((of_char c :: nat) mod 16)]"
    using quote_char_cases [of c] by blast
  then show ?thesis
  proof cases
    case s
    then show ?thesis
      using assms quote_char_cases [of d] safe_not_special [of c] by auto
  next
    case b
    then show ?thesis
      using assms quote_char_cases [of d] safe_not_special [of d] by auto
  next
    case h
    consider (s') "always_safe d" "quote_char d = [d]"
      | (b') "d = CHR '' ''" "quote_char d = ''+''"
      | (h') "\<not> always_safe d" "d \<noteq> CHR '' ''"
            "quote_char d = [CHR ''%'', hex_digit ((of_char d :: nat) div 16),
                             hex_digit ((of_char d :: nat) mod 16)]"
      using quote_char_cases [of d] by blast
    then show ?thesis
    proof cases
      case s'
      then show ?thesis using assms h safe_not_special [of d] by auto
    next
      case b'
      then show ?thesis using assms h by auto
    next
      case h'
      from assms h(3) h'(3)
      have e1: "hex_digit ((of_char c :: nat) div 16) = hex_digit ((of_char d :: nat) div 16)"
        and e2: "hex_digit ((of_char c :: nat) mod 16) = hex_digit ((of_char d :: nat) mod 16)"
        and r: "r1 = r2" by simp_all
      have "c = d"
        using hex_digit_inj [OF hc(1) hd(1) e1] hex_digit_inj [OF hc(2) hd(2) e2]
        by (rule of_char_div_mod_inj)
      with r show ?thesis by simp
    qed
  qed
qed

lemma quote_char_nonempty: "quote_char c \<noteq> []"
  using quote_char_cases [of c] by auto

lemma quote_plus_inj: "quote_plus s = quote_plus s' \<Longrightarrow> s = s'"
proof (induction s arbitrary: s')
  case Nil
  then show ?case
    by (cases s') (simp_all add: quote_plus_def quote_char_nonempty)
next
  case (Cons c s)
  show ?case
  proof (cases s')
    case Nil
    then show ?thesis using Cons.prems by (simp add: quote_plus_def quote_char_nonempty)
  next
    case (Cons d u)
    then have "quote_char c @ quote_plus s = quote_char d @ quote_plus u"
      using Cons.prems by (simp add: quote_plus_def)
    then have "c = d \<and> quote_plus s = quote_plus u" by (rule quote_char_prefix_free)
    then show ?thesis using Cons.IH [of u] Cons by simp
  qed
qed

lemma lock_root_inj: "get_lock_root_path app k = get_lock_root_path app k' \<longleftrightarrow> k = k'"
  by (auto simp: path_simps dest: quote_plus_inj)

lemma distinct_lock_roots: "distinct (map (get_lock_root_path app) ks) = distinct ks"
  by (simp add: distinct_map inj_on_def lock_root_inj)

lemma lock_list_ok_same:
  "lookup z' (get_transaction_lock_list_path app t) = lookup z (get_transaction_lock_list_path app t)
   \<Longrightarrow> node_exists z' (get_xg_path app t) = node_exists z (get_xg_path app t)
   \<Longrightarrow> lock_list_ok app t z' = lock_list_ok app t z"
  by (simp add: lock_list_ok_def lock_list_def)

lemma acquire_lock_first_orphan:
  assumes "faults z = []"
    and "\<not> blacklisted z app t"
    and "lookup z (get_transaction_lock_list_path app t) = None"
    and "lookup z (get_lock_root_path app k) = None"
    and "\<not> node_exists z (get_transaction_path app t)"
  shows "lookup (snd (acquire_lock app t k z)) (get_transaction_lock_list_path app t) = None"
    and "node_exists (snd (acquire_lock app t k z)) (get_xg_path app t)
           = node_exists z (get_xg_path app t)"
proof -
  let ?lp = "get_transaction_lock_list_path app t"
  let ?lr = "get_lock_root_path app k"
  let ?c = "checked app t z"
  let ?y = "(with_lock_root app t k ?c)\<lparr>trace := trace ?c @ [(MCreate, ?lr), (MCreateAsync, ?lp)]\<rparr>"
  have qc: "faults ?c = []" using assms(1) by simp
  have free: "lookup ?c ?lr = None"
    using assms(4) by (simp add: lookup_with_blacklist_root_other)
  have run: "acquire_lock app t k z = (Inr True, snd (zk_create ?lp ?lr False False False ?y))"
    using acquire_lock_reaches_additional(1) [OF assms(1,2,3)]
      acquire_additional_lock_free(1) [OF qc free]
    by simp
  have "\<not> node_exists ?y (parent_of ?lp)"
    using assms(5)
    by (simp add: parent_of_lock_list_path node_exists_with_lock_root_tx
        node_exists_with_blacklist_root_other)
  then have same: "snd (zk_create ?lp ?lr False False False ?y) = ?y"
    by (rule lookup_zk_create_orphan)
  show "lookup (snd (acquire_lock app t k z)) ?lp = None"
    using assms(3)
    by (simp add: run same lookup_with_lock_root_tx lookup_with_blacklist_root_other)
  show "node_exists (snd (acquire_lock app t k z)) (get_xg_path app t)
          = node_exists z (get_xg_path app t)"
    by (simp add: run same node_exists_with_lock_root_tx node_exists_with_blacklist_root_other)
qed

lemma acquire_lock_held_view:
  assumes "faults z = []"
    and "\<not> blacklisted z app t"
    and "lookup z (get_lock_root_path app k) = Some owner"
    and "lookup z (get_transaction_lock_list_path app t) = None
         \<or> (\<exists>v. lookup z (get_transaction_lock_list_path app t) = Some v
                \<and> get_lock_root_path app k \<notin> set (py_split v LOCK_LIST_SEPARATOR)
                \<and> node_exists z (get_xg_path app t))"
  shows "lookup (snd (acquire_lock app t k z)) (get_transaction_lock_list_path app t)
           = lookup z (get_transaction_lock_list_path app t)
     \<and> node_exists (snd (acquire_lock app t k z)) (get_xg_path app t)
           = node_exists z (get_xg_path app t)"
proof -
  let ?c = "checked app t z"
  have qc: "faults ?c = []" using assms(1) by simp
  have held: "lookup ?c (get_lock_root_path app k) = Some owner"
    using assms(3) by (simp add: lookup_with_blacklist_root_Some)
  have "\<exists>create. acquire_lock app t k z = acquire_additional_lock app t k create ?c"
    using assms(4) acquire_lock_reaches_additional [OF assms(1,2)] by blast
  then obtain create where "acquire_lock app t k z = acquire_additional_lock app t k create ?c" ..
  then have "snd (acquire_lock app t k z)
      = (ensure_path (parent_of (get_lock_root_path app k)) ?c)
          \<lparr>trace := trace ?c @ [(MCreate, get_lock_root_path app k),
                                 (MGet, get_lock_root_path app k)]\<rparr>"
    by (simp add: acquire_additional_lock_held_quiet [OF qc held])
  then show ?thesis
    by (simp add: lookup_ensure_locks_tx node_exists_def lookup_with_blacklist_root_other)
qed

lemma py_split_lock_root:
  "py_split (get_lock_root_path app k) LOCK_LIST_SEPARATOR = [get_lock_root_path app k]"
  by (simp add: py_split_def split_acc_sep_free lock_root_no_bang)

lemma acquire_lock_keeps_lock_list_ok:
  assumes "faults z = []"
    and "lock_list_ok app t z"
  shows "lock_list_ok app t (snd (acquire_lock app t k z))"
proof (cases "blacklisted z app t")
  case True
  have "lock_list_ok app t (snd (acquire_lock app t k z)) = lock_list_ok app t z"
    by (rule lock_list_ok_same)
       (simp_all add: acquire_lock_blacklisted [OF assms(1) True]
          lookup_with_blacklist_root_other node_exists_with_blacklist_root_other)
  then show ?thesis using assms(2) by simp
next
  case nb: False
  let ?lp = "get_transaction_lock_list_path app t"
  let ?lr = "get_lock_root_path app k"
  let ?z' = "snd (acquire_lock app t k z)"
  have same: "lock_list_ok app t ?z'"
    if "lookup ?z' ?lp = lookup z ?lp"
      and "node_exists ?z' (get_xg_path app t) = node_exists z (get_xg_path app t)"
    using lock_list_ok_same [OF that] assms(2) by simp
  show ?thesis
  proof (cases "lookup z ?lp")
    case None
    show ?thesis
    proof (cases "lookup z ?lr")
      case (Some owner)
      show ?thesis
        using acquire_lock_held_view [OF assms(1) nb Some disjI1 [OF None]] same by simp
    next
      case free: None
      show ?thesis
      proof (cases "node_exists z (get_transaction_path app t)")
        case True
        note e = acquire_lock_first_free [OF assms(1) nb None free True]
        have "lock_list app t ?z' = [?lr]"
          by (simp add: lock_list_def e(4) py_split_lock_root)
        then show ?thesis
          by (simp add: lock_list_ok_def MAX_GROUPS_FOR_XG_def lock_root_no_bang)
      next
        case False
        show ?thesis
          using acquire_lock_first_orphan [OF assms(1) nb None free False] None same by simp
      qed
    qed
  next
    case (Some v)
    have splits: "lock_list app t z = py_split v LOCK_LIST_SEPARATOR"
      by (simp add: lock_list_def Some)
    show ?thesis
    proof (cases "?lr \<in> set (py_split v LOCK_LIST_SEPARATOR)")
      case True
      show ?thesis
        by (rule same)
           (simp_all add: acquire_lock_same_root [OF assms(1) nb Some True]
              lookup_with_blacklist_root_other node_exists_with_blacklist_root_other)
    next
      case nin: False
      show ?thesis
      proof (cases "node_exists z (get_xg_path app t)")
        case False
        show ?thesis
          by (rule same)
             (simp_all add: acquire_lock_other_root_non_xg [OF assms(1) nb Some False nin]
                lookup_with_blacklist_root_other node_exists_with_blacklist_root_other)
      next
        case xg: True
        show ?thesis
        proof (cases "lookup z ?lr")
          case (Some owner)
          have "\<exists>v. lookup z ?lp = Some v
                  \<and> ?lr \<notin> set (py_split v LOCK_LIST_SEPARATOR)
                  \<and> node_exists z (get_xg_path app t)"
            using \<open>lookup z ?lp = Some v\<close> nin xg by blast
          then show ?thesis
            using acquire_lock_held_view [OF assms(1) nb Some disjI2] same by simp
        next
          case free: None
          note e = acquire_lock_add_free [OF assms(1) nb \<open>lookup z ?lp = Some v\<close> nin xg free]
          show ?thesis
          proof (cases "MAX_GROUPS_FOR_XG \<le> length (py_split v LOCK_LIST_SEPARATOR)")
            case True
            show ?thesis
              by (rule same) (simp_all add: e(4) e(5) True \<open>lookup z ?lp = Some v\<close> xg)
          next
            case False
            have bf: "list_all (\<lambda>r. CHR ''!'' \<notin> set r) (py_split v LOCK_LIST_SEPARATOR)"
              using assms(2) \<open>lookup z ?lp = Some v\<close> by (simp add: lock_list_ok_def splits)
            have "lock_list app t ?z' = py_split v LOCK_LIST_SEPARATOR @ [?lr]"
              using False
              by (simp add: lock_list_def e(4) py_split_extended [OF bf lock_root_no_bang])
            then show ?thesis
              using False bf e(5)
              by (simp add: lock_list_ok_def lock_root_no_bang)
          qed
        qed
      qed
    qed
  qed
qed

section \<open>The claims\<close>



text \<open>
  C2. With the service answering every request. First, the bound is kept by every call:
  if the \<open>lockpath\<close> value of a transaction splits into at most \<open>MAX_GROUPS_FOR_XG\<close> (five)
  lock roots, and into exactly one when the transaction is not XG, then the same holds
  after \<open>acquire_lock\<close> on any key, whatever the call returns. Second, the calls one after
  the other: on a transaction that is not blacklisted, whose node exists and that has no
  lock yet, \<open>acquire_lock\<close> for distinct keys whose lock roots are free succeeds for the
  first five keys of an XG transaction and raises the too-many-groups exception for every
  later one, and the \<open>lockpath\<close> value splits into the lock roots of those five keys; on a
  transaction that is not XG it succeeds for the first key, raises the
  different-root-entity exception for every later one, and the \<open>lockpath\<close> value is the lock
  root of the first key.
\<close>

theorem acquire_lock_at_most_five_groups:
  assumes "faults z = []"
  shows "(lock_list_ok app t z \<longrightarrow> lock_list_ok app t (snd (acquire_lock app t k z)))
     \<and> (\<not> blacklisted z app t
        \<and> node_exists z (get_transaction_path app t)
        \<and> lookup z (get_transaction_lock_list_path app t) = None
        \<and> distinct ks
        \<and> (\<forall>k\<in>set ks. lookup z (get_lock_root_path app k) = None)
        \<longrightarrow>
          (node_exists z (get_xg_path app t) \<longrightarrow>
             fst (acquire_locks app t ks z)
               = replicate (min (length ks) MAX_GROUPS_FOR_XG) (Inr True)
                 @ replicate (length ks - MAX_GROUPS_FOR_XG)
                     (Inl (ZKTransactionException TooManyGroups))
             \<and> lock_list app t (snd (acquire_locks app t ks z))
               = map (get_lock_root_path app) (take MAX_GROUPS_FOR_XG ks))
        \<and> (\<not> node_exists z (get_xg_path app t) \<longrightarrow>
             fst (acquire_locks app t ks z)
               = replicate (min (length ks) 1) (Inr True)
                 @ replicate (length ks - 1)
                     (Inl (ZKTransactionException DifferentRootEntity))
             \<and> lock_list app t (snd (acquire_locks app t ks z))
               = map (get_lock_root_path app) (take 1 ks)))"
proof -
  have inv: "lock_list_ok app t z \<longrightarrow> lock_list_ok app t (snd (acquire_lock app t k z))"
    using acquire_lock_keeps_lock_list_ok [OF assms] by blast
  have scen: "fst (acquire_locks app t ks z)
               = replicate (min (length ks) (max_groups app t z)) (Inr True)
                 @ replicate (length ks - max_groups app t z) (Inl (refusal app t z))
             \<and> lock_list app t (snd (acquire_locks app t ks z))
               = map (get_lock_root_path app) (take (max_groups app t z) ks)"
    if nb: "\<not> blacklisted z app t"
      and tx: "node_exists z (get_transaction_path app t)"
      and lp: "lookup z (get_transaction_lock_list_path app t) = None"
      and d: "distinct ks"
      and free: "\<forall>k\<in>set ks. lookup z (get_lock_root_path app k) = None"
  proof -
    have d': "distinct (map (get_lock_root_path app) ([] @ ks))"
      using d by (simp add: distinct_lock_roots)
    have lp': "lookup z (get_transaction_lock_list_path app t)
                 = (if ([] :: string list) = [] then None
                    else Some (py_join LOCK_LIST_SEPARATOR (map (get_lock_root_path app) [])))"
      using lp by simp
    have len: "length ([] :: string list) \<le> max_groups app t z" by simp
    note r = acquire_locks_from [OF assms nb tx lp' d' free len]
    have pos: "0 < max_groups app t z" by (simp add: max_groups_def MAX_GROUPS_FOR_XG_def)
    show ?thesis
    proof (cases "ks = []")
      case True
      then show ?thesis using lp by (simp add: lock_list_def)
    next
      case False
      then have ne: "take (max_groups app t z) ks \<noteq> []" using pos by (cases ks) simp_all
      show ?thesis
        using r False ne
        by (simp add: lock_list_def split_lock_roots del: acquire_locks.simps)
    qed
  qed
  show ?thesis
    using inv scen by (auto simp: max_groups_def refusal_def simp del: acquire_locks.simps)
qed

theorem acquire_lock_at_most_five_groups_witness:
  "faults zk_xg_tx = []
   \<and> lock_list_ok ''app'' 1 zk_xg_tx
   \<and> \<not> blacklisted zk_xg_tx ''app'' 1
   \<and> node_exists zk_xg_tx (get_transaction_path ''app'' 1)
   \<and> node_exists zk_xg_tx (get_xg_path ''app'' 1)
   \<and> lookup zk_xg_tx (get_transaction_lock_list_path ''app'' 1) = None
   \<and> map (\<lambda>k. lookup zk_xg_tx (get_lock_root_path ''app'' k))
        [''k1'', ''k2'', ''k3'', ''k4'', ''k5'', ''k6''] = [None, None, None, None, None, None]
   \<and> lock_list_ok ''app'' 1 (snd (acquire_lock ''app'' 1 ''k1'' zk_xg_tx))
   \<and> fst (acquire_locks ''app'' 1 [''k1'', ''k2'', ''k3'', ''k4'', ''k5'', ''k6''] zk_xg_tx)
       = [Inr True, Inr True, Inr True, Inr True, Inr True,
          Inl (ZKTransactionException TooManyGroups)]
   \<and> lock_list ''app'' 1
        (snd (acquire_locks ''app'' 1 [''k1'', ''k2'', ''k3'', ''k4'', ''k5'', ''k6''] zk_xg_tx))
       = [''/appscale/apps/app/locks/k1'', ''/appscale/apps/app/locks/k2'',
          ''/appscale/apps/app/locks/k3'', ''/appscale/apps/app/locks/k4'',
          ''/appscale/apps/app/locks/k5'']"
proof -
  let ?ks = "[''k1'', ''k2'', ''k3'', ''k4'', ''k5'', ''k6'']"
  have h1: "faults zk_xg_tx = []" by (simp add: zk_xg_tx_def zk_empty_def)
  have h2: "lock_list_ok ''app'' 1 zk_xg_tx" by code_simp
  have h3: "\<not> blacklisted zk_xg_tx ''app'' 1" by code_simp
  have h4: "node_exists zk_xg_tx (get_transaction_path ''app'' 1)" by code_simp
  have h5: "node_exists zk_xg_tx (get_xg_path ''app'' 1)" by code_simp
  have h6: "lookup zk_xg_tx (get_transaction_lock_list_path ''app'' 1) = None" by code_simp
  have h7: "distinct ?ks" by simp
  have h8: "map (\<lambda>k. lookup zk_xg_tx (get_lock_root_path ''app'' k)) ?ks = [None, None, None, None, None, None]"
    by code_simp
  then have h8': "\<forall>k\<in>set ?ks. lookup zk_xg_tx (get_lock_root_path ''app'' k) = None"
    by simp
  have roots: "map (get_lock_root_path ''app'') (take MAX_GROUPS_FOR_XG ?ks)
       = [''/appscale/apps/app/locks/k1'', ''/appscale/apps/app/locks/k2'',
          ''/appscale/apps/app/locks/k3'', ''/appscale/apps/app/locks/k4'',
          ''/appscale/apps/app/locks/k5'']"
    by code_simp
  have reps: "replicate (min (length ?ks) MAX_GROUPS_FOR_XG) (Inr True)
                 @ replicate (length ?ks - MAX_GROUPS_FOR_XG)
                     (Inl (ZKTransactionException TooManyGroups))
       = [Inr True, Inr True, Inr True, Inr True, Inr True,
          Inl (ZKTransactionException TooManyGroups) :: exc + bool]"
    by (simp add: MAX_GROUPS_FOR_XG_def)
  note r = acquire_lock_at_most_five_groups [OF h1, of "''app''" 1 "''k1''" ?ks]
  from r h2 have c1: "lock_list_ok ''app'' 1 (snd (acquire_lock ''app'' 1 ''k1'' zk_xg_tx))"
    by blast
  from r h3 h4 h5 h6 h7 h8'
  have "fst (acquire_locks ''app'' 1 ?ks zk_xg_tx)
               = replicate (min (length ?ks) MAX_GROUPS_FOR_XG) (Inr True)
                 @ replicate (length ?ks - MAX_GROUPS_FOR_XG)
                     (Inl (ZKTransactionException TooManyGroups))
        \<and> lock_list ''app'' 1 (snd (acquire_locks ''app'' 1 ?ks zk_xg_tx))
               = map (get_lock_root_path ''app'') (take MAX_GROUPS_FOR_XG ?ks)"
    by blast
  then have c2: "fst (acquire_locks ''app'' 1 ?ks zk_xg_tx)
       = [Inr True, Inr True, Inr True, Inr True, Inr True,
          Inl (ZKTransactionException TooManyGroups)]"
    and c3: "lock_list ''app'' 1 (snd (acquire_locks ''app'' 1 ?ks zk_xg_tx))
       = [''/appscale/apps/app/locks/k1'', ''/appscale/apps/app/locks/k2'',
          ''/appscale/apps/app/locks/k3'', ''/appscale/apps/app/locks/k4'',
          ''/appscale/apps/app/locks/k5'']"
    by (simp_all only: reps roots)
  from h1 h2 h3 h4 h5 h6 h8 c1 c2 c3 show ?thesis by blast
qed

text \<open>
  C3 (fails on the code). The claim: for each transient error kind (connection loss,
  connection closed, operation timeout, session expired) \<open>run_with_timeout\<close> reconnects,
  takes one retry off the counter and re-invokes the same operation with the same
  arguments. On an operation timeout the code re-invokes the function with no arguments:
  a \<open>get\<close> of the existing node \<open>/n\<close> that times out once never reaches the service again
  and ends in the no-more-retries exception, while the same \<open>get\<close> after a connection loss
  is issued a second time and returns the node's value.
\<close>

theorem run_with_timeout_operation_timeout_drops_args:
  "run_with_timeout DEFAULT_ZK_TIMEOUT DEFAULT_NUM_RETRIES handle_get [AStr ''/n'']
     (zk_one_node [Some OperationTimeoutError])
   = (Inl (ZKTransactionException NoMoreRetries),
      (zk_one_node [])\<lparr>reconnects := 1, trace := [(MGet, ''/n'')]\<rparr>)
   \<and> run_with_timeout DEFAULT_ZK_TIMEOUT DEFAULT_NUM_RETRIES handle_get [AStr ''/n'']
     (zk_one_node [Some ConnectionLoss])
   = (Inr (VData ''v''),
      (zk_one_node [])\<lparr>reconnects := 1, trace := [(MGet, ''/n''), (MGet, ''/n'')]\<rparr>)"
  by code_simp

text \<open>
  C4 (fails on the code). The claim: \<open>notify_failed_transaction\<close> on a transaction whose
  node and lockpath exist deletes every remaining child and then the transaction node,
  exactly once, children before parent. With two children (\<open>lockpath\<close> and one \<open>ukey\<close>
  entry) the code asks for the deletion of the transaction node twice, the first time
  before it has asked for the deletion of the second child. These are the deletions it
  requests, in order.
\<close>

theorem notify_failed_transaction_deletes_parent_in_loop:
  "map snd (filter (\<lambda>(m, p). m = MDeleteAsync)
     (trace (snd (notify_failed_transaction ''app'' 1 zk_tx_with_ukey))))
   = [''/appscale/apps/app/locks/k1'',
      ''/appscale/apps/app/txids/tx0000000001/lockpath'',
      ''/appscale/apps/app/txids/tx0000000001'',
      ''/appscale/apps/app/txids/tx0000000001/ukey0000000001'',
      ''/appscale/apps/app/txids/tx0000000001'']"
  by code_simp

text \<open>
  C6. On a live non-XG transaction that holds the lock of \<open>k1\<close> (its \<open>lockpath\<close> value lists
  the lock root of \<open>k1\<close>, it has no \<open>xg\<close> child, it is not blacklisted), with the service
  answering every request: \<open>acquire_lock\<close> for a key \<open>k2\<close> whose lock root is not in the
  lockpath raises the different-root-entity exception, \<open>acquire_lock\<close> for \<open>k1\<close> again
  returns \<open>True\<close>, neither call changes the value of any existing node, and the refused
  call creates no lock root for \<open>k2\<close>.
\<close>

theorem acquire_lock_non_xg_second_key_refused:
  assumes "faults z = []"
    and "\<not> blacklisted z app txid"
    and "lookup z (get_transaction_lock_list_path app txid) = Some v"
    and "\<not> node_exists z (get_xg_path app txid)"
    and "get_lock_root_path app k1 \<in> set (py_split v LOCK_LIST_SEPARATOR)"
    and "get_lock_root_path app k2 \<notin> set (py_split v LOCK_LIST_SEPARATOR)"
  shows "fst (acquire_lock app txid k2 z) = Inl (ZKTransactionException DifferentRootEntity)
     \<and> fst (acquire_lock app txid k1 z) = Inr True
     \<and> (\<forall>q w. lookup z q = Some w \<longrightarrow>
            lookup (snd (acquire_lock app txid k2 z)) q = Some w
          \<and> lookup (snd (acquire_lock app txid k1 z)) q = Some w)
     \<and> lookup (snd (acquire_lock app txid k2 z)) (get_lock_root_path app k2)
         = lookup z (get_lock_root_path app k2)"
  using assms
  by (simp add: acquire_lock_same_root acquire_lock_other_root_non_xg
      lookup_with_blacklist_root_Some lookup_with_blacklist_root_other)

theorem acquire_lock_non_xg_second_key_refused_witness:
  "faults zk_tx_with_ukey = []
   \<and> \<not> blacklisted zk_tx_with_ukey ''app'' 1
   \<and> lookup zk_tx_with_ukey (get_transaction_lock_list_path ''app'' 1)
       = Some ''/appscale/apps/app/locks/k1''
   \<and> \<not> node_exists zk_tx_with_ukey (get_xg_path ''app'' 1)
   \<and> get_lock_root_path ''app'' ''k1''
       \<in> set (py_split ''/appscale/apps/app/locks/k1'' LOCK_LIST_SEPARATOR)
   \<and> get_lock_root_path ''app'' ''k2''
       \<notin> set (py_split ''/appscale/apps/app/locks/k1'' LOCK_LIST_SEPARATOR)
   \<and> fst (acquire_lock ''app'' 1 ''k2'' zk_tx_with_ukey)
       = Inl (ZKTransactionException DifferentRootEntity)
   \<and> fst (acquire_lock ''app'' 1 ''k1'' zk_tx_with_ukey) = Inr True
   \<and> lookup (snd (acquire_lock ''app'' 1 ''k2'' zk_tx_with_ukey))
        (get_lock_root_path ''app'' ''k2'') = None"
proof -
  have h1: "faults zk_tx_with_ukey = []"
    by (simp add: zk_tx_with_ukey_def zk_empty_def)
  have h2: "\<not> blacklisted zk_tx_with_ukey ''app'' 1"
    by code_simp
  have h3: "lookup zk_tx_with_ukey (get_transaction_lock_list_path ''app'' 1)
              = Some ''/appscale/apps/app/locks/k1''"
    by code_simp
  have h4: "\<not> node_exists zk_tx_with_ukey (get_xg_path ''app'' 1)"
    by code_simp
  have h5: "get_lock_root_path ''app'' ''k1''
              \<in> set (py_split ''/appscale/apps/app/locks/k1'' LOCK_LIST_SEPARATOR)"
    by code_simp
  have h6: "get_lock_root_path ''app'' ''k2''
              \<notin> set (py_split ''/appscale/apps/app/locks/k1'' LOCK_LIST_SEPARATOR)"
    by code_simp
  have h7: "lookup zk_tx_with_ukey (get_lock_root_path ''app'' ''k2'') = None"
    by code_simp
  note r = acquire_lock_non_xg_second_key_refused [OF h1 h2 h3 h4 h5 h6]
  from r have c1: "fst (acquire_lock ''app'' 1 ''k2'' zk_tx_with_ukey)
                     = Inl (ZKTransactionException DifferentRootEntity)"
    by (rule conjunct1)
  from r have c2: "fst (acquire_lock ''app'' 1 ''k1'' zk_tx_with_ukey) = Inr True"
    by blast
  from r h7 have c3: "lookup (snd (acquire_lock ''app'' 1 ''k2'' zk_tx_with_ukey))
                        (get_lock_root_path ''app'' ''k2'') = None"
    by metis
  from h1 h2 h3 h4 h5 h6 c1 c2 c3 show ?thesis by blast
qed

text \<open>
  C7 (corrected). The claim: when two transactions contend for the same key, the second
  \<open>acquire_lock\<close> finds the lock root created by the first and fails with the already-held
  exception, after a best-effort read of the owner, and leaves the first transaction's lock
  in place. That holds when the second transaction has no lock yet or is an XG
  transaction; a non-XG transaction that already holds another key is refused with the
  different-root-entity exception before the lock root is looked at (the counterexample
  below).

  The statement proved: the lock root of \<open>k\<close> exists; transaction \<open>t2\<close> is not blacklisted,
  and it has no \<open>lockpath\<close>, or it has one that does not list the lock root of \<open>k\<close> and it has
  an \<open>xg\<close> child; the service answers every request before the read of the lock root, and
  that read it answers or fails with \<open>NoNodeError\<close> (the owner released the lock in between).
  Then \<open>acquire_lock\<close> of \<open>t2\<close> on \<open>k\<close> raises the already-held exception, every node keeps
  its value (the lock root still names its owner and the owner's \<open>lockpath\<close> is as before),
  and the requests the call has added are exactly \<open>contended_requests\<close>: they end with the
  creation of the lock root and the read of it, and there is no delete and no set among
  them.
\<close>

theorem acquire_lock_contended_fails_already_held:
  assumes "\<not> blacklisted z app t2"
    and "lookup z (get_lock_root_path app k) = Some owner"
    and "lookup z (get_transaction_lock_list_path app t2) = None
         \<or> (\<exists>v. lookup z (get_transaction_lock_list_path app t2) = Some v
                \<and> get_lock_root_path app k \<notin> set (py_split v LOCK_LIST_SEPARATOR)
                \<and> node_exists z (get_xg_path app t2))"
    and "answered (length (contended_requests app t2 k z) - 1) z"
    and "fault_at (length (contended_requests app t2 k z) - 1) z = None
         \<or> fault_at (length (contended_requests app t2 k z) - 1) z = Some NoNodeError"
  shows "fst (acquire_lock app t2 k z) = Inl (ZKTransactionException AlreadyHeld)
     \<and> (\<forall>q w. lookup z q = Some w \<longrightarrow> lookup (snd (acquire_lock app t2 k z)) q = Some w)
     \<and> trace (snd (acquire_lock app t2 k z)) = trace z @ contended_requests app t2 k z"
proof -
  let ?b = "blacklist_requests app z"
  let ?w = "with_blacklist_root app z"
  let ?lp = "get_transaction_lock_list_path app t2"
  let ?n = "length (contended_requests app t2 k z) - 1"
  have aw: "answered ?n ?w" using assms(4) by simp
  from assms(3) show ?thesis
  proof
    assume none: "lookup z ?lp = None"
    let ?pre = "?b @ [(MExists, ?lp)]"
    let ?zb = "served ?pre ?w"
    have n: "?n = length ?pre + 1"
      using none by (simp add: contended_requests_def)
    have a0: "answered (Suc (length ?b)) z"
      using assms(4) by (rule answered_mono) (use n in simp)
    have a1: "answered (Suc 0) ?zb"
      using aw by (rule answered_served_le) (use n in simp)
    have f1: "fault_at (Suc 0) ?zb = fault_at ?n z"
      using n by (simp add: fault_at_served)
    have held: "lookup ?zb (get_lock_root_path app k) = Some owner"
      using assms(2) by (simp add: lookup_with_blacklist_root_Some)
    have "acquire_lock app t2 k z = acquire_additional_lock app t2 k True ?zb"
      using assms(1) none by (simp add: acquire_lock_def act_defs is_in_transaction_answered [OF a0])
    then have "acquire_lock app t2 k z
        = (Inl (ZKTransactionException AlreadyHeld),
           served [(MCreate, get_lock_root_path app k), (MGet, get_lock_root_path app k)]
             (ensure_path (parent_of (get_lock_root_path app k)) ?zb))"
      using acquire_additional_lock_contended [OF a1 _ held] assms(5) f1 by simp
    then show ?thesis
      using none
      by (simp add: contended_requests_def lookup_ensure_path_Some lookup_with_blacklist_root_Some)
  next
    assume "\<exists>v. lookup z ?lp = Some v
                \<and> get_lock_root_path app k \<notin> set (py_split v LOCK_LIST_SEPARATOR)
                \<and> node_exists z (get_xg_path app t2)"
    then obtain v where v: "lookup z ?lp = Some v"
      and nin: "get_lock_root_path app k \<notin> set (py_split v LOCK_LIST_SEPARATOR)"
      and xg: "node_exists z (get_xg_path app t2)" by blast
    let ?pre = "?b @ [(MExists, ?lp), (MGet, ?lp), (MExists, get_xg_path app t2)]"
    let ?zb = "served ?pre ?w"
    have n: "?n = length ?pre + 1"
      using v by (simp add: contended_requests_def)
    have a0: "answered (Suc (length ?b)) z"
      using assms(4) by (rule answered_mono) (use n in simp)
    have a1: "answered (Suc 0) (served (?b @ [(MExists, ?lp)]) ?w)"
      using aw by (rule answered_served_le) (use n in simp)
    have a2: "answered (Suc 0) (served (?b @ [(MExists, ?lp), (MGet, ?lp)]) ?w)"
      using aw by (rule answered_served_le) (use n in simp)
    have a3: "answered (Suc 0) ?zb"
      using aw by (rule answered_served_le) (use n in simp)
    have f1: "fault_at (Suc 0) ?zb = fault_at ?n z"
      using n by (simp add: fault_at_served)
    have held: "lookup ?zb (get_lock_root_path app k) = Some owner"
      using assms(2) by (simp add: lookup_with_blacklist_root_Some)
    have "acquire_lock app t2 k z = acquire_additional_lock app t2 k False ?zb"
      using assms(1) v nin xg a1 a2
      by (simp add: acquire_lock_def act_defs is_in_transaction_answered [OF a0]
          rwt_get_answered is_xg_answered
          lookup_with_blacklist_root_Some node_exists_with_blacklist_root_other)
    then have "acquire_lock app t2 k z
        = (Inl (ZKTransactionException AlreadyHeld),
           served [(MCreate, get_lock_root_path app k), (MGet, get_lock_root_path app k)]
             (ensure_path (parent_of (get_lock_root_path app k)) ?zb))"
      using acquire_additional_lock_contended [OF a3 _ held] assms(5) f1 by simp
    then show ?thesis
      using v
      by (simp add: contended_requests_def lookup_ensure_path_Some lookup_with_blacklist_root_Some)
  qed
qed

theorem acquire_lock_contended_fails_already_held_witness:
  "\<not> blacklisted zk_two_tx ''app'' 3
   \<and> lookup zk_two_tx (get_lock_root_path ''app'' ''k1'')
       = Some ''/appscale/apps/app/txids/tx0000000001''
   \<and> lookup zk_two_tx (get_transaction_lock_list_path ''app'' 3) = None
   \<and> fault_at 4 zk_two_tx = None
   \<and> fault_at 4 zk_two_tx_read_lost = Some NoNodeError
   \<and> fst (acquire_lock ''app'' 3 ''k1'' zk_two_tx) = Inl (ZKTransactionException AlreadyHeld)
   \<and> fst (acquire_lock ''app'' 3 ''k1'' zk_two_tx_read_lost)
       = Inl (ZKTransactionException AlreadyHeld)
   \<and> lookup (snd (acquire_lock ''app'' 3 ''k1'' zk_two_tx_read_lost))
        (get_lock_root_path ''app'' ''k1'')
       = Some ''/appscale/apps/app/txids/tx0000000001''
   \<and> trace (snd (acquire_lock ''app'' 3 ''k1'' zk_two_tx_read_lost))
       = [(MExists, ''/appscale/apps/app/txids/blacklist''),
          (MGetChildren, ''/appscale/apps/app/txids/blacklist''),
          (MExists, ''/appscale/apps/app/txids/tx0000000003/lockpath''),
          (MCreate, ''/appscale/apps/app/locks/k1''),
          (MGet, ''/appscale/apps/app/locks/k1'')]"
proof -
  have n: "length (contended_requests ''app'' 3 ''k1'' zk_two_tx) - 1 = 4"
    "length (contended_requests ''app'' 3 ''k1'' zk_two_tx_read_lost) - 1 = 4"
    by code_simp+
  have b: "\<not> blacklisted zk_two_tx ''app'' 3" "\<not> blacklisted zk_two_tx_read_lost ''app'' 3"
    by code_simp+
  have h: "lookup zk_two_tx (get_lock_root_path ''app'' ''k1'')
             = Some ''/appscale/apps/app/txids/tx0000000001''"
    "lookup zk_two_tx_read_lost (get_lock_root_path ''app'' ''k1'')
             = Some ''/appscale/apps/app/txids/tx0000000001''"
    by code_simp+
  have l: "lookup zk_two_tx (get_transaction_lock_list_path ''app'' 3) = None"
    "lookup zk_two_tx_read_lost (get_transaction_lock_list_path ''app'' 3) = None"
    by code_simp+
  have a: "answered 4 zk_two_tx" "answered 4 zk_two_tx_read_lost"
    by code_simp+
  have f: "fault_at 4 zk_two_tx = None" "fault_at 4 zk_two_tx_read_lost = Some NoNodeError"
    by code_simp+
  have t: "trace zk_two_tx_read_lost @ contended_requests ''app'' 3 ''k1'' zk_two_tx_read_lost
           = [(MExists, ''/appscale/apps/app/txids/blacklist''),
              (MGetChildren, ''/appscale/apps/app/txids/blacklist''),
              (MExists, ''/appscale/apps/app/txids/tx0000000003/lockpath''),
              (MCreate, ''/appscale/apps/app/locks/k1''),
              (MGet, ''/appscale/apps/app/locks/k1'')]"
    by code_simp
  note quiet = acquire_lock_contended_fails_already_held
    [of zk_two_tx "''app''" 3 "''k1''", OF b(1) h(1) disjI1 [OF l(1)], unfolded n,
     OF a(1) disjI1 [OF f(1)]]
  note lost = acquire_lock_contended_fails_already_held
    [of zk_two_tx_read_lost "''app''" 3 "''k1''", OF b(2) h(2) disjI1 [OF l(2)], unfolded n,
     OF a(2) disjI2 [OF f(2)]]
  from quiet have c1: "fst (acquire_lock ''app'' 3 ''k1'' zk_two_tx)
                         = Inl (ZKTransactionException AlreadyHeld)"
    by (rule conjunct1)
  from lost have c2: "fst (acquire_lock ''app'' 3 ''k1'' zk_two_tx_read_lost)
                         = Inl (ZKTransactionException AlreadyHeld)"
    by (rule conjunct1)
  from lost h(2) have c3: "lookup (snd (acquire_lock ''app'' 3 ''k1'' zk_two_tx_read_lost))
                            (get_lock_root_path ''app'' ''k1'')
                           = Some ''/appscale/apps/app/txids/tx0000000001''"
    by blast
  from lost have "trace (snd (acquire_lock ''app'' 3 ''k1'' zk_two_tx_read_lost))
                    = trace zk_two_tx_read_lost
                      @ contended_requests ''app'' 3 ''k1'' zk_two_tx_read_lost"
    by blast
  then have c4: "trace (snd (acquire_lock ''app'' 3 ''k1'' zk_two_tx_read_lost))
       = [(MExists, ''/appscale/apps/app/txids/blacklist''),
          (MGetChildren, ''/appscale/apps/app/txids/blacklist''),
          (MExists, ''/appscale/apps/app/txids/tx0000000003/lockpath''),
          (MCreate, ''/appscale/apps/app/locks/k1''),
          (MGet, ''/appscale/apps/app/locks/k1'')]"
    by (simp only: t)
  from b(1) h(1) l(1) f c1 c2 c3 c4 show ?thesis by blast
qed

text \<open>
  C7, the input on which the claim as worded fails. Transaction 1 holds the lock of \<open>k1\<close>
  and the non-XG transaction 3 holds the lock of \<open>k2\<close>; transaction 3 asks for \<open>k1\<close>. The
  two contend for \<open>k1\<close>, yet the call raises the different-root-entity exception, not the
  already-held one, and it sends no request for the lock root of \<open>k1\<close>: neither the
  creation that would find it nor the read of its owner.
\<close>

theorem acquire_lock_contended_non_xg_holder_counterexample:
  "lookup zk_two_locks (get_lock_root_path ''app'' ''k1'')
     = Some (get_transaction_path ''app'' 1)
   \<and> lookup zk_two_locks (get_transaction_lock_list_path ''app'' 3)
     = Some (get_lock_root_path ''app'' ''k2'')
   \<and> fst (acquire_lock ''app'' 3 ''k1'' zk_two_locks)
     = Inl (ZKTransactionException DifferentRootEntity)
   \<and> fst (acquire_lock ''app'' 3 ''k1'' zk_two_locks)
     \<noteq> Inl (ZKTransactionException AlreadyHeld)
   \<and> filter (\<lambda>(m, p). p = get_lock_root_path ''app'' ''k1'')
        (trace (snd (acquire_lock ''app'' 3 ''k1'' zk_two_locks))) = []"
  by code_simp

text \<open>
  C8 (fails on the code). The claim: when the creation of the \<open>xg\<close> marker fails on every
  attempt, the allocator retries a bounded number of times and then fails with a
  transaction exception rather than letting the raw service error escape. With the
  service answering every creation of the marker with \<open>DataInconsistency\<close>,
  \<open>get_transaction_id\<close> asks for the marker once and the raw \<open>DataInconsistency\<close> escapes.
\<close>

theorem get_transaction_id_xg_raw_error_escapes:
  "fst (get_transaction_id ''app'' True (zk_failing_after_two DataInconsistency))
     = Inl DataInconsistency
   \<and> filter (\<lambda>(m, p). p = get_xg_path ''app'' 1)
        (trace (snd (get_transaction_id ''app'' True (zk_failing_after_two DataInconsistency))))
     = [(MCreate, ''/appscale/apps/app/txids/tx0000000001/xg'')]"
  by code_simp

text \<open>
  C9. \<open>check_transaction\<close> asks for the blacklist before it asks whether the transaction
  node exists. So, with the service answering every request: for a blacklisted
  transaction \<open>release_lock\<close> raises the timed-out exception, whether or not the
  transaction node exists; and \<open>release_lock\<close> raises the not-valid exception exactly when
  the transaction is not blacklisted and its node is missing.
\<close>

theorem release_lock_checks_blacklist_first:
  assumes "faults z = []"
  shows "(blacklisted z app txid \<longrightarrow>
            fst (release_lock app txid z) = Inl (ZKTransactionException TransactionTimedOut))
     \<and> (fst (release_lock app txid z) = Inl (ZKTransactionException TransactionNotValid)
          \<longleftrightarrow> \<not> blacklisted z app txid \<and> \<not> node_exists z (get_transaction_path app txid))"
proof (cases "blacklisted z app txid")
  case True
  then show ?thesis
    using assms by (simp add: release_lock_split andthen_def check_transaction_quiet)
next
  case nb: False
  show ?thesis
  proof (cases "node_exists z (get_transaction_path app txid)")
    case False
    then show ?thesis
      using assms nb by (simp add: release_lock_split andthen_def check_transaction_quiet)
  next
    case True
    let ?z1 = "(with_blacklist_root app z)\<lparr>trace := trace z @ blacklist_requests app z
                 @ [(MExists, get_transaction_path app txid)]\<rparr>"
    have eq: "release_lock app txid z = release_rest app txid ?z1"
      using assms nb True by (simp add: release_lock_split andthen_def check_transaction_quiet)
    have "faults ?z1 = []" using assms by simp
    then have "\<forall>e. fst (release_rest app txid ?z1) = Inl e \<longrightarrow> e \<in> release_errors"
      using release_rest_quiet_raises [of app txid] unfolding quiet_raises_def by blast
    then have "fst (release_rest app txid ?z1) \<noteq> Inl (ZKTransactionException TransactionNotValid)"
      by (auto simp: release_errors_def)
    then show ?thesis using nb True eq by simp
  qed
qed

theorem release_lock_checks_blacklist_first_witness:
  "faults zk_blacklisted = []
   \<and> blacklisted zk_blacklisted ''app'' 1
   \<and> \<not> node_exists zk_blacklisted (get_transaction_path ''app'' 1)
   \<and> fst (release_lock ''app'' 1 zk_blacklisted)
       = Inl (ZKTransactionException TransactionTimedOut)
   \<and> faults zk_blacklisted_stale = []
   \<and> blacklisted zk_blacklisted_stale ''app'' 1
   \<and> node_exists zk_blacklisted_stale (get_transaction_path ''app'' 1)
   \<and> fst (release_lock ''app'' 1 zk_blacklisted_stale)
       = Inl (ZKTransactionException TransactionTimedOut)
   \<and> \<not> blacklisted zk_blacklisted ''app'' 2
   \<and> \<not> node_exists zk_blacklisted (get_transaction_path ''app'' 2)
   \<and> fst (release_lock ''app'' 2 zk_blacklisted)
       = Inl (ZKTransactionException TransactionNotValid)
   \<and> fst (release_lock ''app'' 1 zk_fresh_tx)
       \<noteq> Inl (ZKTransactionException TransactionNotValid)"
proof -
  have f1: "faults zk_blacklisted = []"
    by (simp add: zk_blacklisted_def zk_empty_def)
  have f2: "faults zk_blacklisted_stale = []"
    by (simp add: zk_blacklisted_stale_def zk_empty_def)
  have f3: "faults zk_fresh_tx = []"
    by (simp add: zk_fresh_tx_def zk_empty_def)
  have b1: "blacklisted zk_blacklisted ''app'' 1"
    by code_simp
  have n1: "\<not> node_exists zk_blacklisted (get_transaction_path ''app'' 1)"
    by code_simp
  have b2: "blacklisted zk_blacklisted_stale ''app'' 1"
    by code_simp
  have n2: "node_exists zk_blacklisted_stale (get_transaction_path ''app'' 1)"
    by code_simp
  have b3: "\<not> blacklisted zk_blacklisted ''app'' 2"
    by code_simp
  have n3: "\<not> node_exists zk_blacklisted (get_transaction_path ''app'' 2)"
    by code_simp
  have n4: "node_exists zk_fresh_tx (get_transaction_path ''app'' 1)"
    by code_simp
  from release_lock_checks_blacklist_first [OF f1, of "''app''" 1] b1
  have c1: "fst (release_lock ''app'' 1 zk_blacklisted)
              = Inl (ZKTransactionException TransactionTimedOut)"
    by blast
  from release_lock_checks_blacklist_first [OF f2, of "''app''" 1] b2
  have c2: "fst (release_lock ''app'' 1 zk_blacklisted_stale)
              = Inl (ZKTransactionException TransactionTimedOut)"
    by blast
  from release_lock_checks_blacklist_first [OF f1, of "''app''" 2] b3 n3
  have c3: "fst (release_lock ''app'' 2 zk_blacklisted)
              = Inl (ZKTransactionException TransactionNotValid)"
    by blast
  from release_lock_checks_blacklist_first [OF f3, of "''app''" 1] n4
  have c4: "fst (release_lock ''app'' 1 zk_fresh_tx)
              \<noteq> Inl (ZKTransactionException TransactionNotValid)"
    by blast
  from f1 f2 b1 n1 b2 n2 b3 n3 c1 c2 c3 c4 show ?thesis by blast
qed

text \<open>
  C10. \<open>release_lock\<close> on a transaction whose node exists, that is not blacklisted and has
  no \<open>lockpath\<close> child, with the service answering every request: it returns \<open>True\<close>; every
  node keeps its value (the transaction node, its \<open>xg\<close> child if there is one, every other
  child); the transaction node has the same children as before; and the call sends no
  \<open>delete\<close> and no \<open>delete_async\<close> request.
\<close>

theorem release_lock_without_lockpath_deletes_nothing:
  assumes "faults z = []"
    and "node_exists z (get_transaction_path app txid)"
    and "\<not> blacklisted z app txid"
    and "lookup z (get_transaction_lock_list_path app txid) = None"
  shows "fst (release_lock app txid z) = Inr True
     \<and> (\<forall>q v. lookup z q = Some v \<longrightarrow> lookup (snd (release_lock app txid z)) q = Some v)
     \<and> children_of (snd (release_lock app txid z)) (get_transaction_path app txid)
         = children_of z (get_transaction_path app txid)
     \<and> filter (\<lambda>(m, p). m = MDelete \<or> m = MDeleteAsync) (trace (snd (release_lock app txid z)))
         = filter (\<lambda>(m, p). m = MDelete \<or> m = MDeleteAsync) (trace z)"
  using assms
  by (simp add: release_lock_no_lockpath lookup_with_blacklist_root_Some
      children_of_with_blacklist_root blacklist_requests_def)

theorem release_lock_without_lockpath_deletes_nothing_witness:
  "faults zk_xg_tx = []
   \<and> node_exists zk_xg_tx (get_transaction_path ''app'' 1)
   \<and> \<not> blacklisted zk_xg_tx ''app'' 1
   \<and> lookup zk_xg_tx (get_transaction_lock_list_path ''app'' 1) = None
   \<and> fst (release_lock ''app'' 1 zk_xg_tx) = Inr True
   \<and> lookup (snd (release_lock ''app'' 1 zk_xg_tx)) (get_xg_path ''app'' 1) = Some ''100.0''
   \<and> children_of (snd (release_lock ''app'' 1 zk_xg_tx)) (get_transaction_path ''app'' 1)
       = [''xg'']
   \<and> filter (\<lambda>(m, p). m = MDelete \<or> m = MDeleteAsync)
        (trace (snd (release_lock ''app'' 1 zk_xg_tx))) = []"
proof -
  have h1: "faults zk_xg_tx = []"
    by (simp add: zk_xg_tx_def zk_empty_def)
  have h2: "node_exists zk_xg_tx (get_transaction_path ''app'' 1)"
    by code_simp
  have h3: "\<not> blacklisted zk_xg_tx ''app'' 1"
    by code_simp
  have h4: "lookup zk_xg_tx (get_transaction_lock_list_path ''app'' 1) = None"
    by code_simp
  have h5: "lookup zk_xg_tx (get_xg_path ''app'' 1) = Some ''100.0''"
    by code_simp
  have h6: "children_of zk_xg_tx (get_transaction_path ''app'' 1) = [''xg'']"
    by code_simp
  have h7: "filter (\<lambda>(m, p). m = MDelete \<or> m = MDeleteAsync) (trace zk_xg_tx) = []"
    by (simp add: zk_xg_tx_def zk_empty_def)
  note r = release_lock_without_lockpath_deletes_nothing [OF h1 h2 h3 h4]
  from r have c1: "fst (release_lock ''app'' 1 zk_xg_tx) = Inr True"
    by (rule conjunct1)
  from r h5 have c2: "lookup (snd (release_lock ''app'' 1 zk_xg_tx)) (get_xg_path ''app'' 1)
                        = Some ''100.0''"
    by blast
  from r h6 have c3: "children_of (snd (release_lock ''app'' 1 zk_xg_tx))
                        (get_transaction_path ''app'' 1) = [''xg'']"
    by simp
  from r h7 have c4: "filter (\<lambda>(m, p). m = MDelete \<or> m = MDeleteAsync)
                        (trace (snd (release_lock ''app'' 1 zk_xg_tx))) = []"
    by simp
  from h1 h2 h3 h4 c1 c2 c3 c4 show ?thesis by blast
qed

end
